theory Spec2Isabelle
  imports Complex_Main
begin

section \<open>Data model\<close>

text \<open>
  The repository is TypeScript. Its declarations file (\<open>types.ts\<close>) is not among the
  sources, so the enumerations and the shape of a field configuration are taken from the
  way the three source files use them (\<open>STRATEGY_LABELS\<close> in the schema row component lists
  the fourteen strategies; \<open>analysisSchema\<close> in the AI service lists the option keys and
  their types).

  Conventions of the embedding:
  \<^item> A JavaScript number is an exact rational, or one of \<open>NaN\<close>, \<open>+Infinity\<close>,
    \<open>-Infinity\<close>. Rounding and overflow of IEEE doubles are not modelled, and \<open>-0\<close> is
    identified with \<open>0\<close>; every arithmetic fact below is therefore a fact about inputs on
    which the double operations involved are exact (integers of magnitude below \<open>2^53\<close>,
    for instance).
  \<^item> A string is a list of 8-bit characters, read as UTF-16 code units below 256.
  \<^item> An optional property is an \<open>option\<close>: \<open>None\<close> is \<open>undefined\<close> (absent).
  \<^item> An object is the list of its own properties in enumeration order. Members that a
    JavaScript object inherits from its prototype are not part of this list; where the
    source reads a property that may be inherited, the model says so explicitly.
\<close>

datatype jsnum = Num rat | NaN | PosInfinity | NegInfinity

text \<open>Primitive values: what a flat row, a sample leaf or \<open>staticValue\<close> holds.\<close>

datatype prim = PUndefined | PNull | PBool bool | PNum jsnum | PStr string

text \<open>Nested values: a primitive, an array, or an object (own properties in order).\<close>

datatype jsval = Prim prim | JArr "jsval list" | JObj "(string \<times> jsval) list"

datatype FieldType = STRING | NUMBER | BOOLEAN | ARRAY | NULL

datatype GenerationStrategy =
    INCREMENT | RANDOM_INT | RANDOM_FLOAT | ENUM | UUID | NAME | EMAIL | DATE
  | ADDRESS | PHONE | SENTENCE | STATIC | REGEX | AI_CONTEXT

text \<open>\<open>groupingConfig.strategy\<close> is \<open>'fixed' | 'even'\<close> (\<open>useState<'fixed' | 'even'>\<close> in App.tsx).\<close>

datatype GroupStrategy = Fixed | Even

record GroupingConfig =
  group_strategy :: GroupStrategy
  countPerGroup :: "jsnum option"
  resetFields :: "string list"

text \<open>
  \<open>min\<close>, \<open>max\<close> and \<open>values\<close> are written \<open>min_opt\<close>, \<open>max_opt\<close> and \<open>values_opt\<close>: the
  plain names are taken in Isabelle.
\<close>

record FieldOptions =
  min_opt :: "jsnum option"
  max_opt :: "jsnum option"
  step :: "jsnum option"
  start :: "jsnum option"
  precision :: "jsnum option"
  values_opt :: "string list option"
  format :: "string option"
  pattern :: "string option"
  staticValue :: prim
  groupingConfig :: "GroupingConfig option"

record FieldConfig =
  key :: string
  ftype :: FieldType
  strategy :: GenerationStrategy
  options :: "FieldOptions option"
  description :: "string option"
  sampleValue :: prim

text \<open>The empty options object \<open>{}\<close>.\<close>

definition no_options :: FieldOptions where
  "no_options = \<lparr> min_opt = None, max_opt = None, step = None, start = None,
     precision = None, values_opt = None, format = None, pattern = None,
     staticValue = PUndefined, groupingConfig = None \<rparr>"

section \<open>JavaScript primitives used by the sources\<close>

subsection \<open>Numbers\<close>

text \<open>Truthiness of a number: \<open>0\<close> and \<open>NaN\<close> are falsy.\<close>

fun num_truthy :: "jsnum \<Rightarrow> bool" where
  "num_truthy (Num q) = (q \<noteq> 0)"
| "num_truthy NaN = False"
| "num_truthy PosInfinity = True"
| "num_truthy NegInfinity = True"

fun isNaN :: "jsnum \<Rightarrow> bool" where
  "isNaN NaN = True"
| "isNaN _ = False"

text \<open>\<open>Number.isInteger\<close>: finite and without fractional part.\<close>

fun isInteger :: "jsnum \<Rightarrow> bool" where
  "isInteger (Num q) = (of_int \<lfloor>q\<rfloor> = q)"
| "isInteger _ = False"

fun num_neg :: "jsnum \<Rightarrow> jsnum" where
  "num_neg (Num q) = Num (- q)"
| "num_neg NaN = NaN"
| "num_neg PosInfinity = NegInfinity"
| "num_neg NegInfinity = PosInfinity"

text \<open>The operators \<open>+\<close>, \<open>*\<close>, \<open>/\<close>, \<open>%\<close> and \<open>Math.floor\<close> on numbers.\<close>

fun num_add :: "jsnum \<Rightarrow> jsnum \<Rightarrow> jsnum" where
  "num_add (Num a) (Num b) = Num (a + b)"
| "num_add NaN _ = NaN"
| "num_add _ NaN = NaN"
| "num_add PosInfinity NegInfinity = NaN"
| "num_add NegInfinity PosInfinity = NaN"
| "num_add PosInfinity _ = PosInfinity"
| "num_add NegInfinity _ = NegInfinity"
| "num_add _ PosInfinity = PosInfinity"
| "num_add _ NegInfinity = NegInfinity"

fun num_mult :: "jsnum \<Rightarrow> jsnum \<Rightarrow> jsnum" where
  "num_mult (Num a) (Num b) = Num (a * b)"
| "num_mult NaN _ = NaN"
| "num_mult _ NaN = NaN"
| "num_mult (Num a) PosInfinity =
     (if a = 0 then NaN else if 0 < a then PosInfinity else NegInfinity)"
| "num_mult (Num a) NegInfinity =
     (if a = 0 then NaN else if 0 < a then NegInfinity else PosInfinity)"
| "num_mult PosInfinity (Num b) =
     (if b = 0 then NaN else if 0 < b then PosInfinity else NegInfinity)"
| "num_mult NegInfinity (Num b) =
     (if b = 0 then NaN else if 0 < b then NegInfinity else PosInfinity)"
| "num_mult PosInfinity PosInfinity = PosInfinity"
| "num_mult NegInfinity NegInfinity = PosInfinity"
| "num_mult PosInfinity NegInfinity = NegInfinity"
| "num_mult NegInfinity PosInfinity = NegInfinity"

fun num_div :: "jsnum \<Rightarrow> jsnum \<Rightarrow> jsnum" where
  "num_div (Num a) (Num b) =
     (if b \<noteq> 0 then Num (a / b)
      else if a = 0 then NaN else if 0 < a then PosInfinity else NegInfinity)"
| "num_div NaN _ = NaN"
| "num_div _ NaN = NaN"
| "num_div (Num a) _ = Num 0"
| "num_div PosInfinity (Num b) = (if 0 \<le> b then PosInfinity else NegInfinity)"
| "num_div NegInfinity (Num b) = (if 0 \<le> b then NegInfinity else PosInfinity)"
| "num_div _ _ = NaN"

fun num_floor :: "jsnum \<Rightarrow> jsnum" where
  "num_floor (Num q) = Num (of_int \<lfloor>q\<rfloor>)"
| "num_floor n = n"

text \<open>
  The remainder \<open>a % b\<close> truncates the quotient towards zero, so its sign is the sign of
  \<open>a\<close>.
\<close>

definition trunc :: "rat \<Rightarrow> int" where
  "trunc q = (if 0 \<le> q then \<lfloor>q\<rfloor> else \<lceil>q\<rceil>)"

fun num_mod :: "jsnum \<Rightarrow> jsnum \<Rightarrow> jsnum" where
  "num_mod (Num a) (Num b) = (if b = 0 then NaN else Num (a - b * of_int (trunc (a / b))))"
| "num_mod (Num a) PosInfinity = Num a"
| "num_mod (Num a) NegInfinity = Num a"
| "num_mod _ _ = NaN"

subsection \<open>Strings\<close>

text \<open>
  \<open>String.prototype.toLowerCase\<close> on code units below 256: the capitals \<open>A\<close>..\<open>Z\<close> and
  the Latin-1 capitals U+00C0..U+00DE (but the multiplication sign U+00D7) move up by 32.
\<close>

definition lower_char :: "char \<Rightarrow> char" where
  "lower_char c =
     (let n = (of_char c :: nat) in
      if (65 \<le> n \<and> n \<le> 90) \<or> (192 \<le> n \<and> n \<le> 222 \<and> n \<noteq> 215)
      then char_of (n + 32) else c)"

definition toLowerCase :: "string \<Rightarrow> string" where
  "toLowerCase s = map lower_char s"

definition endsWith :: "string \<Rightarrow> string \<Rightarrow> bool" where
  "endsWith s suffix = (length suffix \<le> length s \<and> drop (length s - length suffix) s = suffix)"

definition startsWith :: "string \<Rightarrow> string \<Rightarrow> bool" where
  "startsWith s pre = (take (length pre) s = pre)"

fun str_includes :: "string \<Rightarrow> string \<Rightarrow> bool" where
  "str_includes [] sub = (sub = [])"
| "str_includes (c # cs) sub = (startsWith (c # cs) sub \<or> str_includes cs sub)"

definition is_digit :: "char \<Rightarrow> bool" where
  "is_digit c = (let n = (of_char c :: nat) in 48 \<le> n \<and> n \<le> 57)"

definition is_hex :: "char \<Rightarrow> bool" where
  "is_hex c = (let n = (of_char c :: nat) in
     (48 \<le> n \<and> n \<le> 57) \<or> (65 \<le> n \<and> n \<le> 70) \<or> (97 \<le> n \<and> n \<le> 102))"

text \<open>\<open>run p n s\<close> consumes exactly \<open>n\<close> characters satisfying \<open>p\<close> and returns the rest.\<close>

fun run :: "(char \<Rightarrow> bool) \<Rightarrow> nat \<Rightarrow> string \<Rightarrow> string option" where
  "run p 0 s = Some s"
| "run p (Suc n) [] = None"
| "run p (Suc n) (c # cs) = (if p c then run p n cs else None)"

fun dash :: "string \<Rightarrow> string option" where
  "dash [] = None"
| "dash (c # cs) = (if c = CHR ''-'' then Some cs else None)"

text \<open>\<^verbatim>\<open>/^[0-9a-f]{8}-[0-9a-f]{4}-[0-9a-f]{4}-[0-9a-f]{4}-[0-9a-f]{12}$/i\<close>\<close>

definition uuid_test :: "string \<Rightarrow> bool" where
  "uuid_test s =
     (Option.bind (Option.bind (Option.bind (Option.bind (Option.bind (Option.bind
        (Option.bind (Option.bind (run is_hex 8 s) dash) (run is_hex 4)) dash)
        (run is_hex 4)) dash) (run is_hex 4)) dash) (run is_hex 12) = Some [])"

text \<open>\<^verbatim>\<open>/^\d{4}-\d{2}-\d{2}/\<close>\<close>

definition iso_date_test :: "string \<Rightarrow> bool" where
  "iso_date_test s =
     (Option.bind (Option.bind (Option.bind (Option.bind (run is_digit 4 s) dash)
        (run is_digit 2)) dash) (run is_digit 2) \<noteq> None)"

section \<open>Local inference (localService.ts, determineStrategy)\<close>

text \<open>
  \<^verbatim>\<open>
  const determineStrategy = (key: string, value: any) => {
    const k = key.toLowerCase();
    if (value === null) return { strategy: STATIC, options: { staticValue: "null" } };
    if (typeof value === 'number') {
      if ((k === 'id' || k.endsWith('_id') || k.endsWith('Id')) && Number.isInteger(value)) {
          return { strategy: INCREMENT, options: { start: value, step: 1 } };
      }
      if (Number.isInteger(value))
        return { strategy: RANDOM_INT, options: { min: 0, max: value * 2 || 100 } };
      return { strategy: RANDOM_FLOAT, options: { min: 0, max: value * 2 || 100, precision: 2 } };
    }
    if (typeof value === 'boolean')
      return { strategy: ENUM, options: { values: ['true', 'false'] } };
    if (typeof value === 'string') {
      if (/^[0-9a-f]{8}-...-[0-9a-f]{12}$/i.test(value)) return { strategy: UUID };
      if (/^\d{4}-\d{2}-\d{2}/.test(value) ||
          (Date.parse(value) && (k.includes('date') || k.includes('time') || k.includes('_at'))))
        return { strategy: DATE, options: { format: 'YYYY-MM-DD' } };
      if (k.includes('email')) return { strategy: EMAIL };
      if (k.includes('name') || k.includes('user') || k.includes('author')) return { strategy: NAME };
      if (k.includes('phone') || k.includes('tel')) return { strategy: PHONE };
      if (k.includes('address') || k.includes('city') || k.includes('street') || k.includes('country'))
        return { strategy: ADDRESS };
      return { strategy: AI_CONTEXT, description: "Local: Random String" };
    }
    return { strategy: STATIC, options: { staticValue: String(value) } };
  };
  \<close>
  The value is a leaf of the flattened sample, hence a primitive. \<open>Date.parse\<close> is the
  host's date parser; whether \<open>Date.parse(value)\<close> is truthy for the given value is the
  parameter \<open>dateParses\<close>. The result is the triple of strategy, options and description.
\<close>

text \<open>\<open>value * 2 || 100\<close>\<close>

definition twice_or_100 :: "jsnum \<Rightarrow> jsnum" where
  "twice_or_100 v = (let d = num_mult v (Num 2) in if num_truthy d then d else Num 100)"

fun determineStrategy ::
  "bool \<Rightarrow> string \<Rightarrow> prim \<Rightarrow> GenerationStrategy \<times> FieldOptions option \<times> string option" where
  "determineStrategy dateParses key' PNull =
     (STATIC, Some (no_options\<lparr>staticValue := PStr ''null''\<rparr>), None)"
| "determineStrategy dateParses key' (PNum v) =
     (let k = toLowerCase key' in
      if (k = ''id'' \<or> endsWith k ''_id'' \<or> endsWith k ''Id'') \<and> isInteger v
      then (INCREMENT, Some (no_options\<lparr>start := Some v, step := Some (Num 1)\<rparr>), None)
      else if isInteger v
      then (RANDOM_INT,
            Some (no_options\<lparr>min_opt := Some (Num 0), max_opt := Some (twice_or_100 v)\<rparr>), None)
      else (RANDOM_FLOAT,
            Some (no_options\<lparr>min_opt := Some (Num 0), max_opt := Some (twice_or_100 v),
                    precision := Some (Num 2)\<rparr>), None))"
| "determineStrategy dateParses key' (PBool b) =
     (ENUM, Some (no_options\<lparr>values_opt := Some [''true'', ''false'']\<rparr>), None)"
| "determineStrategy dateParses key' (PStr s) =
     (let k = toLowerCase key' in
      if uuid_test s then (UUID, None, None)
      else if iso_date_test s \<or>
              (dateParses \<and> (str_includes k ''date'' \<or> str_includes k ''time'' \<or> str_includes k ''_at''))
      then (DATE, Some (no_options\<lparr>format := Some ''YYYY-MM-DD''\<rparr>), None)
      else if str_includes k ''email'' then (EMAIL, None, None)
      else if str_includes k ''name'' \<or> str_includes k ''user'' \<or> str_includes k ''author''
      then (NAME, None, None)
      else if str_includes k ''phone'' \<or> str_includes k ''tel'' then (PHONE, None, None)
      else if str_includes k ''address'' \<or> str_includes k ''city'' \<or> str_includes k ''street''
              \<or> str_includes k ''country''
      then (ADDRESS, None, None)
      else (AI_CONTEXT, None, Some ''Local: Random String''))"
| "determineStrategy dateParses key' PUndefined =
     (STATIC, Some (no_options\<lparr>staticValue := PStr ''undefined''\<rparr>), None)"

section \<open>Structural-change classifier (App.tsx, isStructuralChange)\<close>

text \<open>
  \<^verbatim>\<open>
  const isStructuralChange = (f1: FieldConfig, f2: FieldConfig): boolean => {
    if (f1.key !== f2.key) return true;
    if (f1.type !== f2.type) return true;
    if (f1.strategy !== f2.strategy) return true;
    const hasGroup1 = !!f1.options?.groupingConfig;
    const hasGroup2 = !!f2.options?.groupingConfig;
    if (hasGroup1 !== hasGroup2) return true;
    if ((!f1.options && f2.options) || (f1.options && !f2.options)) return false;
    return false;
  };
  \<close>
  \<open>f.options?.groupingConfig\<close> is \<open>undefined\<close> when either the options or the grouping
  configuration is absent, and an object (truthy) otherwise.
\<close>

definition hasGroup :: "FieldConfig \<Rightarrow> bool" where
  "hasGroup f = (case options f of None \<Rightarrow> False
                 | Some opts \<Rightarrow> (case groupingConfig opts of None \<Rightarrow> False | Some gc \<Rightarrow> True))"

definition isStructuralChange :: "FieldConfig \<Rightarrow> FieldConfig \<Rightarrow> bool" where
  "isStructuralChange f1 f2 =
     (if key f1 \<noteq> key f2 then True
      else if ftype f1 \<noteq> ftype f2 then True
      else if strategy f1 \<noteq> strategy f2 then True
      else let hasGroup1 = hasGroup f1; hasGroup2 = hasGroup f2 in
        if hasGroup1 \<noteq> hasGroup2 then True
        else if (options f1 = None \<and> options f2 \<noteq> None) \<or> (options f1 \<noteq> None \<and> options f2 = None)
          then False
        else False)"

section \<open>Coercions (Number, Boolean)\<close>

text \<open>
  \<open>Number(s)\<close> for a string follows the \<open>StringNumericLiteral\<close> grammar of the language:
  white space is trimmed; the empty string is \<open>0\<close>; \<open>0x\<close>, \<open>0o\<close> and \<open>0b\<close> introduce
  unsigned hexadecimal, octal and binary integers; otherwise an optional sign is followed by
  \<open>Infinity\<close> or by a decimal literal (digits, an optional fraction, an optional exponent).
  Everything else is \<open>NaN\<close>. The value of a literal is its exact rational value.
\<close>

definition is_space :: "char \<Rightarrow> bool" where
  "is_space c = (of_char c \<in> {9, 10, 11, 12, 13, 32, 160 :: nat})"

definition trim :: "string \<Rightarrow> string" where
  "trim s = rev (dropWhile is_space (rev (dropWhile is_space s)))"

definition digit_val :: "char \<Rightarrow> nat" where
  "digit_val c =
     (let n = (of_char c :: nat) in
      if 48 \<le> n \<and> n \<le> 57 then n - 48
      else if 65 \<le> n \<and> n \<le> 70 then n - 55
      else n - 87)"

definition digits_val :: "nat \<Rightarrow> string \<Rightarrow> nat" where
  "digits_val base s = foldl (\<lambda>a c. base * a + digit_val c) 0 s"

definition is_octal :: "char \<Rightarrow> bool" where
  "is_octal c = (let n = (of_char c :: nat) in 48 \<le> n \<and> n \<le> 55)"

definition is_binary :: "char \<Rightarrow> bool" where
  "is_binary c = (c = CHR ''0'' \<or> c = CHR ''1'')"

definition radix_literal :: "(char \<Rightarrow> bool) \<Rightarrow> nat \<Rightarrow> string \<Rightarrow> jsnum" where
  "radix_literal p base ds =
     (if ds \<noteq> [] \<and> list_all p ds then Num (of_nat (digits_val base ds)) else NaN)"

text \<open>The exponent part: empty, or \<open>e\<close>/\<open>E\<close>, an optional sign and at least one digit.\<close>

fun exponent :: "string \<Rightarrow> int option" where
  "exponent [] = Some 0"
| "exponent (c # cs) =
     (if c = CHR ''e'' \<or> c = CHR ''E'' then
        (case cs of
           [] \<Rightarrow> None
         | d # ds \<Rightarrow>
             if d = CHR ''-'' then
               (if ds \<noteq> [] \<and> list_all is_digit ds then Some (- int (digits_val 10 ds)) else None)
             else if d = CHR ''+'' then
               (if ds \<noteq> [] \<and> list_all is_digit ds then Some (int (digits_val 10 ds)) else None)
             else if list_all is_digit cs then Some (int (digits_val 10 cs)) else None)
      else None)"

definition pow10 :: "int \<Rightarrow> rat" where
  "pow10 e = (if 0 \<le> e then 10 ^ nat e else 1 / 10 ^ nat (- e))"

definition unsigned_decimal :: "string \<Rightarrow> jsnum" where
  "unsigned_decimal s =
     (if s = ''Infinity'' then PosInfinity
      else
        let ip = takeWhile is_digit s; r1 = dropWhile is_digit s;
            fp = (case r1 of [] \<Rightarrow> [] | c # cs \<Rightarrow> if c = CHR ''.'' then takeWhile is_digit cs else []);
            r2 = (case r1 of [] \<Rightarrow> [] | c # cs \<Rightarrow> if c = CHR ''.'' then dropWhile is_digit cs else r1)
        in if ip = [] \<and> fp = [] then NaN
           else (case exponent r2 of
                   None \<Rightarrow> NaN
                 | Some e \<Rightarrow>
                     Num ((of_nat (digits_val 10 ip)
                           + of_nat (digits_val 10 fp) / 10 ^ length fp) * pow10 e)))"

definition string_to_number :: "string \<Rightarrow> jsnum" where
  "string_to_number s0 =
     (let s = trim s0 in
      case s of
        [] \<Rightarrow> Num 0
      | c # cs \<Rightarrow>
          if c = CHR ''0'' \<and> cs \<noteq> [] \<and> (hd cs = CHR ''x'' \<or> hd cs = CHR ''X'')
            then radix_literal is_hex 16 (tl cs)
          else if c = CHR ''0'' \<and> cs \<noteq> [] \<and> (hd cs = CHR ''o'' \<or> hd cs = CHR ''O'')
            then radix_literal is_octal 8 (tl cs)
          else if c = CHR ''0'' \<and> cs \<noteq> [] \<and> (hd cs = CHR ''b'' \<or> hd cs = CHR ''B'')
            then radix_literal is_binary 2 (tl cs)
          else if c = CHR ''-'' then num_neg (unsigned_decimal cs)
          else if c = CHR ''+'' then unsigned_decimal cs
          else unsigned_decimal s)"

text \<open>\<open>Number(v)\<close> and \<open>Boolean(v)\<close> for a primitive \<open>v\<close>.\<close>

fun to_number :: "prim \<Rightarrow> jsnum" where
  "to_number PUndefined = NaN"
| "to_number PNull = Num 0"
| "to_number (PBool b) = (if b then Num 1 else Num 0)"
| "to_number (PNum n) = n"
| "to_number (PStr s) = string_to_number s"

fun truthy :: "prim \<Rightarrow> bool" where
  "truthy PUndefined = False"
| "truthy PNull = False"
| "truthy (PBool b) = b"
| "truthy (PNum n) = num_truthy n"
| "truthy (PStr s) = (s \<noteq> [])"

text \<open>\<open>x || 1\<close> and \<open>x ?? 1\<close> for an optional number \<open>x\<close>.\<close>

fun or_one :: "jsnum option \<Rightarrow> jsnum" where
  "or_one None = Num 1"
| "or_one (Some n) = (if num_truthy n then n else Num 1)"

fun nullish_or :: "jsnum option \<Rightarrow> jsnum \<Rightarrow> jsnum" where
  "nullish_or None d = d"
| "nullish_or (Some n) d = n"

section \<open>Local generation (localService.ts, generators and generateLocalData)\<close>

text \<open>
  What a run can raise. \<open>TypeError\<close> and \<open>RangeError\<close> are thrown by the language
  (a property of \<open>null\<close> or of a primitive is accessed; \<open>toFixed\<close> is given a digit count
  outside \<open>0..100\<close>). \<open>Unmodelled\<close> marks the places where the behaviour of the source
  depends on parts of the JavaScript object model that this embedding does not represent
  (members inherited from a prototype, the \<open>__proto__\<close> accessor, array properties that are
  not elements, holes in arrays); a result \<open>Inl Unmodelled\<close> asserts nothing about the
  source.
\<close>

datatype js_error = TypeError | RangeError | Unmodelled

text \<open>The names every object inherits from \<open>Object.prototype\<close>.\<close>

definition object_proto_names :: "string list" where
  "object_proto_names =
     [''__proto__'', ''constructor'', ''hasOwnProperty'', ''isPrototypeOf'',
      ''propertyIsEnumerable'', ''toLocaleString'', ''toString'', ''valueOf'',
      ''__defineGetter__'', ''__defineSetter__'', ''__lookupGetter__'', ''__lookupSetter__'']"

text \<open>
  The \<open>state\<close> object of a run holds one counter per key. The randomised generators read
  the host's random source, clock and UUID generator; the model numbers these calls and
  takes the value each call returns from a stream \<open>rnd\<close>, so \<open>draws\<close> counts the calls
  made so far.
\<close>

record gstate =
  counters :: "string \<Rightarrow> jsnum option"
  draws :: nat

text \<open>
  \<open>state[k] = v\<close>. An assignment of a number to \<open>__proto__\<close> is ignored by the language
  and creates no property.
\<close>

definition set_counter :: "string \<Rightarrow> jsnum \<Rightarrow> gstate \<Rightarrow> gstate" where
  "set_counter k v st =
     (if k = ''__proto__'' then st else st\<lparr>counters := (counters st)(k \<mapsto> v)\<rparr>)"

type_synonym generator = "gstate \<Rightarrow> string \<Rightarrow> FieldOptions \<Rightarrow> js_error + (prim \<times> gstate)"

text \<open>A call of a randomised generator: the next value of the stream.\<close>

definition draw :: "(nat \<Rightarrow> prim) \<Rightarrow> gstate \<Rightarrow> js_error + (prim \<times> gstate)" where
  "draw rnd st = Inr (rnd (draws st), st\<lparr>draws := Suc (draws st)\<rparr>)"

text \<open>
  \<open>x.toFixed(prec)\<close> raises a \<open>RangeError\<close> unless the digit count, truncated to an
  integer (\<open>NaN\<close> counting as 0), lies in \<open>0..100\<close>.
\<close>

fun toFixed_ok :: "jsnum \<Rightarrow> bool" where
  "toFixed_ok (Num q) = (0 \<le> trunc q \<and> trunc q \<le> 100)"
| "toFixed_ok NaN = True"
| "toFixed_ok _ = False"

text \<open>
  \<^verbatim>\<open>
  const generators: Record<string, (state: any, key: string, opts: any) => any> = {
    [INCREMENT]: (state, key, opts) => {
        if (state[key] === undefined) state[key] = Number(opts.start || 1);
        const val = state[key];
        state[key] += Number(opts.step || 1);
        return val;
    },
    [RANDOM_INT]: (_, __, opts) => { ... Math.random() ... },
    [RANDOM_FLOAT]: (_, __, opts) => {
        const min = Number(opts.min ?? 0);
        const max = Number(opts.max ?? 100);
        const prec = Number(opts.precision ?? 2);
        return parseFloat((Math.random() * (max - min) + min).toFixed(prec));
    },
    [ENUM]: (_, __, opts) => {
        const vals = opts.values || [];
        if (!vals.length) return opts.values?.[0] || "enum";
        return vals[Math.floor(Math.random() * vals.length)];
    },
    [UUID]: () => crypto.randomUUID(),
    [NAME]: () => ..., [EMAIL]: () => ..., [PHONE]: () => ..., [DATE]: (_, __, opts) => ...,
    [ADDRESS]: () => ...,
    [STATIC]: (_, __, opts) => opts.staticValue,
    [AI_CONTEXT]: () => "Lorem ipsum (Local generated string)",
    [REGEX]: (_, __, opts) => `regex_sim(${opts.pattern || '?'})`,
    [SENTENCE]: () => "The quick brown fox jumps over the lazy dog.",
  };
  \<close>
  The counter of an \<open>increment\<close> field whose key is \<open>__proto__\<close>, or whose key names a
  member of \<open>Object.prototype\<close> while the state has no counter for it, would be read from
  the prototype of the state object: unmodelled.
\<close>

fun generators :: "(nat \<Rightarrow> prim) \<Rightarrow> GenerationStrategy \<Rightarrow> generator" where
  "generators rnd INCREMENT state key' opts =
     (if key' = ''__proto__'' \<or> (counters state key' = None \<and> key' \<in> set object_proto_names)
      then Inl Unmodelled
      else
        let state1 = (if counters state key' = None
                      then set_counter key' (or_one (start opts)) state else state)
        in case counters state1 key' of
             None \<Rightarrow> Inl Unmodelled
           | Some val \<Rightarrow>
               Inr (PNum val, set_counter key' (num_add val (or_one (step opts))) state1))"
| "generators rnd RANDOM_INT state key' opts = draw rnd state"
| "generators rnd RANDOM_FLOAT state key' opts =
     (if toFixed_ok (nullish_or (precision opts) (Num 2)) then draw rnd state
      else Inl RangeError)"
| "generators rnd ENUM state key' opts =
     (case values_opt opts of
        None \<Rightarrow> Inr (PStr ''enum'', state)
      | Some vals \<Rightarrow> if vals = [] then Inr (PStr ''enum'', state) else draw rnd state)"
| "generators rnd UUID state key' opts = draw rnd state"
| "generators rnd NAME state key' opts = draw rnd state"
| "generators rnd EMAIL state key' opts = draw rnd state"
| "generators rnd PHONE state key' opts = draw rnd state"
| "generators rnd DATE state key' opts = draw rnd state"
| "generators rnd ADDRESS state key' opts = draw rnd state"
| "generators rnd STATIC state key' opts = Inr (staticValue opts, state)"
| "generators rnd AI_CONTEXT state key' opts =
     Inr (PStr ''Lorem ipsum (Local generated string)'', state)"
| "generators rnd REGEX state key' opts =
     Inr (PStr (''regex_sim('' @
            (case pattern opts of None \<Rightarrow> ''?'' | Some p \<Rightarrow> if p = [] then ''?'' else p)
          @ '')''), state)"
| "generators rnd SENTENCE state key' opts =
     Inr (PStr ''The quick brown fox jumps over the lazy dog.'', state)"

text \<open>
  The grouping branch of the loop body:
  \<^verbatim>\<open>
  const values = opts.values || [];
  const len = values.length || 1;
  let size = 1;
  if (opts.groupingConfig.strategy === 'even') {
      size = Math.max(1, Math.floor(count / len));
  } else {
      size = opts.groupingConfig.countPerGroup || 1;
  }
  const idx = Math.floor(i / size) % len;
  val = values[idx];
  if (i > 0 && i % size === 0) {
      (opts.groupingConfig.resetFields || []).forEach((resetKey: string) => {
         const targetField = fields.find(f => f.key === resetKey);
         if (targetField && targetField.strategy === GenerationStrategy.INCREMENT) {
             state[resetKey] = targetField.options?.start ?? 1; // Correctly reset to start
         }
      });
  }
  \<close>
  \<open>count\<close> and \<open>i\<close> are natural numbers.
\<close>

definition group_values :: "FieldOptions \<Rightarrow> string list" where
  "group_values opts = (case values_opt opts of None \<Rightarrow> [] | Some vs \<Rightarrow> vs)"

definition group_len :: "FieldOptions \<Rightarrow> nat" where
  "group_len opts = (if length (group_values opts) = 0 then 1 else length (group_values opts))"

definition group_size :: "nat \<Rightarrow> FieldOptions \<Rightarrow> GroupingConfig \<Rightarrow> jsnum" where
  "group_size count opts gc =
     (if group_strategy gc = Even
      then Num (of_nat (max 1 (count div group_len opts)))
      else or_one (countPerGroup gc))"

definition group_idx :: "nat \<Rightarrow> nat \<Rightarrow> FieldOptions \<Rightarrow> GroupingConfig \<Rightarrow> jsnum" where
  "group_idx count i opts gc =
     num_mod (num_floor (num_div (Num (of_nat i)) (group_size count opts gc)))
       (Num (of_nat (group_len opts)))"

text \<open>
  \<open>values[idx]\<close> for a number \<open>idx\<close>: the element when \<open>idx\<close> is a natural number below the
  length, \<open>undefined\<close> otherwise.
\<close>

fun values_at :: "string list \<Rightarrow> jsnum \<Rightarrow> prim" where
  "values_at vs (Num q) =
     (if 0 \<le> q \<and> of_int \<lfloor>q\<rfloor> = q \<and> nat \<lfloor>q\<rfloor> < length vs then PStr (vs ! nat \<lfloor>q\<rfloor>)
      else PUndefined)"
| "values_at vs _ = PUndefined"

definition start_or_1 :: "FieldConfig \<Rightarrow> jsnum" where
  "start_or_1 f = (case options f of None \<Rightarrow> Num 1 | Some opts \<Rightarrow> nullish_or (start opts) (Num 1))"

definition reset_field :: "FieldConfig list \<Rightarrow> gstate \<Rightarrow> string \<Rightarrow> gstate" where
  "reset_field fields' state resetKey =
     (case find (\<lambda>f. key f = resetKey) fields' of
        None \<Rightarrow> state
      | Some targetField \<Rightarrow>
          if strategy targetField = INCREMENT
          then set_counter resetKey (start_or_1 targetField) state
          else state)"

definition group_resets ::
  "nat \<Rightarrow> FieldConfig list \<Rightarrow> nat \<Rightarrow> FieldOptions \<Rightarrow> GroupingConfig \<Rightarrow> gstate \<Rightarrow> gstate" where
  "group_resets count fields' i opts gc state =
     (if 0 < i \<and> num_mod (Num (of_nat i)) (group_size count opts gc) = Num 0
      then foldl (reset_field fields') state (resetFields gc)
      else state)"

text \<open>
  The type enforcement at the end of the loop body:
  \<^verbatim>\<open>
  if (field.strategy === GenerationStrategy.STATIC && val !== undefined && val !== null) {
      if (field.type === FieldType.NUMBER) {
          const num = Number(val);
          if (!isNaN(num)) val = num;
      } else if (field.type === FieldType.BOOLEAN) {
          if (val === 'true') val = true;
          else if (val === 'false') val = false;
          else val = Boolean(val);
      }
  }
  \<close>
\<close>

definition enforce_type :: "FieldConfig \<Rightarrow> prim \<Rightarrow> prim" where
  "enforce_type field val =
     (if strategy field = STATIC \<and> val \<noteq> PUndefined \<and> val \<noteq> PNull then
        (if ftype field = NUMBER then
           (let num = to_number val in if \<not> isNaN num then PNum num else val)
         else if ftype field = BOOLEAN then
           (if val = PStr ''true'' then PBool True
            else if val = PStr ''false'' then PBool False
            else PBool (truthy val))
         else val)
      else val)"

text \<open>
  The value computed for one field in row \<open>i\<close>, and the state it leaves. The table of
  generators is a parameter, so that a statement can quantify over it;
  \<open>generators[field.strategy] || generators[STATIC]\<close> is \<open>G (strategy field)\<close>, every strategy
  of the enumeration having an entry.
  \<^verbatim>\<open>
  fields.forEach(field => {
      const opts = field.options || {};
      let val;
      if (opts.groupingConfig) { ... } else {
           const gen = generators[field.strategy] || generators[GenerationStrategy.STATIC];
           val = gen(state, field.key, opts);
      }
      ... type enforcement ...
      flatRow[field.key] = val;
  });
  \<close>
\<close>

definition options_or_empty :: "FieldConfig \<Rightarrow> FieldOptions" where
  "options_or_empty field = (case options field of None \<Rightarrow> no_options | Some opts \<Rightarrow> opts)"

definition gen_field ::
  "(GenerationStrategy \<Rightarrow> generator) \<Rightarrow> nat \<Rightarrow> FieldConfig list \<Rightarrow> nat \<Rightarrow> gstate
     \<Rightarrow> FieldConfig \<Rightarrow> js_error + (prim \<times> gstate)" where
  "gen_field G count fields' i state field =
     (let opts = options_or_empty field in
      case (case groupingConfig opts of
              Some gc \<Rightarrow>
                Inr (values_at (group_values opts) (group_idx count i opts gc),
                     group_resets count fields' i opts gc state)
            | None \<Rightarrow> G (strategy field) state (key field) opts) of
        Inl e \<Rightarrow> Inl e
      | Inr (val, state') \<Rightarrow> Inr (enforce_type field val, state'))"

section \<open>Objects as property lists\<close>

text \<open>
  A property name is an array index when it is the canonical decimal form of a natural
  number below \<open>2^32 - 1 = 4294967295\<close>. The own properties of an object are enumerated with the array
  indices first, in ascending order, and then the other names in the order of their
  creation; \<open>own_set\<close> is the assignment \<open>o[k] = v\<close> on own properties.
\<close>

definition array_index :: "string \<Rightarrow> nat option" where
  "array_index s =
     (if s \<noteq> [] \<and> list_all is_digit s \<and> (s = ''0'' \<or> hd s \<noteq> CHR ''0'')
         \<and> digits_val 10 s < 4294967295
      then Some (digits_val 10 s) else None)"

fun number_index :: "jsnum \<Rightarrow> nat option" where
  "number_index (Num q) =
     (if 0 \<le> q \<and> of_int \<lfloor>q\<rfloor> = q \<and> nat \<lfloor>q\<rfloor> < 4294967295 then Some (nat \<lfloor>q\<rfloor>) else None)"
| "number_index _ = None"

fun insert_index :: "nat \<Rightarrow> string \<Rightarrow> 'a \<Rightarrow> (string \<times> 'a) list \<Rightarrow> (string \<times> 'a) list" where
  "insert_index n k v [] = [(k, v)]"
| "insert_index n k v ((k', v') # rest) =
     (case array_index k' of
        None \<Rightarrow> (k, v) # (k', v') # rest
      | Some m \<Rightarrow> if m < n then (k', v') # insert_index n k v rest
                  else (k, v) # (k', v') # rest)"

definition own_set :: "string \<Rightarrow> 'a \<Rightarrow> (string \<times> 'a) list \<Rightarrow> (string \<times> 'a) list" where
  "own_set k v kvs =
     (if k \<in> fst ` set kvs then map (\<lambda>(k', v'). if k' = k then (k', v) else (k', v')) kvs
      else case array_index k of
             None \<Rightarrow> kvs @ [(k, v)]
           | Some n \<Rightarrow> insert_index n k v kvs)"

text \<open>\<open>String(i)\<close> for a natural number \<open>i\<close>.\<close>

fun nat_to_string :: "nat \<Rightarrow> string" where
  "nat_to_string n =
     (if n < 10 then [char_of (48 + n)]
      else nat_to_string (n div 10) @ [char_of (48 + n mod 10)])"

declare nat_to_string.simps [simp del]

text \<open>\<open>s.split('.')\<close>\<close>

fun split_dot :: "string \<Rightarrow> string list" where
  "split_dot [] = [[]]"
| "split_dot (c # cs) =
     (if c = CHR ''.'' then [] # split_dot cs
      else (case split_dot cs of [] \<Rightarrow> [[c]] | p # ps \<Rightarrow> (c # p) # ps))"

section \<open>Path codec: flattenObject (localService.ts)\<close>

text \<open>
  \<^verbatim>\<open>
  export const flattenObject = (obj: any, prefix = ''): Record<string, any> => {
    let result: Record<string, any> = {};
    for (const key in obj) {
      if (Object.prototype.hasOwnProperty.call(obj, key)) {
        const value = obj[key];
        const newKey = prefix ? `${prefix}.${key}` : key;
        if (value !== null && typeof value === 'object' && !Array.isArray(value)) {
          Object.assign(result, flattenObject(value, newKey));
        } else if (Array.isArray(value)) {
          if (value.length > 0) {
               if (typeof value[0] === 'object' && value[0] !== null) {
                   Object.assign(result, flattenObject(value[0], `${newKey}.0`));
               } else {
                   result[`${newKey}.0`] = value[0];
               }
          }
        } else {
          result[newKey] = value;
        }
      }
    }
    return result;
  };
  \<close>
  The result is a flat object: a property list with primitive values. An assignment of a
  primitive to the name \<open>__proto__\<close> of the result creates no own property.
  \<open>flatten_props\<close> is the loop over the own properties of an object, \<open>flatten_elems\<close> the
  same loop over the elements of an array (whose keys are the indices), \<open>flatten_entry\<close>
  the loop body; the recursive call \<open>flattenObject(value, newKey)\<close> on an object is
  \<open>flatten_props kvs newKey []\<close>, on an array \<open>flatten_elems xs 0 newKey []\<close>.
\<close>

type_synonym flat = "(string \<times> prim) list"

definition flat_set :: "string \<Rightarrow> prim \<Rightarrow> flat \<Rightarrow> flat" where
  "flat_set k v result = (if k = ''__proto__'' then result else own_set k v result)"

text \<open>\<open>Object.assign(result, sub)\<close>\<close>

definition assign_all :: "flat \<Rightarrow> flat \<Rightarrow> flat" where
  "assign_all result sub = foldl (\<lambda>r (k, v). flat_set k v r) result sub"

definition new_key :: "string \<Rightarrow> string \<Rightarrow> string" where
  "new_key prefix key' = (if prefix \<noteq> [] then prefix @ ''.'' @ key' else key')"

fun flatten_props :: "(string \<times> jsval) list \<Rightarrow> string \<Rightarrow> flat \<Rightarrow> flat"
  and flatten_elems :: "jsval list \<Rightarrow> nat \<Rightarrow> string \<Rightarrow> flat \<Rightarrow> flat"
  and flatten_entry :: "jsval \<Rightarrow> string \<Rightarrow> flat \<Rightarrow> flat" where
  "flatten_props [] prefix result = result"
| "flatten_props ((key', value) # rest) prefix result =
     flatten_props rest prefix (flatten_entry value (new_key prefix key') result)"
| "flatten_elems [] i prefix result = result"
| "flatten_elems (value # rest) i prefix result =
     flatten_elems rest (Suc i) prefix
       (flatten_entry value (new_key prefix (nat_to_string i)) result)"
| "flatten_entry (JObj kvs) newKey result = assign_all result (flatten_props kvs newKey [])"
| "flatten_entry (JArr []) newKey result = result"
| "flatten_entry (JArr (JObj kvs # others)) newKey result =
     assign_all result (flatten_props kvs (newKey @ ''.0'') [])"
| "flatten_entry (JArr (JArr xs # others)) newKey result =
     assign_all result (flatten_elems xs 0 (newKey @ ''.0'') [])"
| "flatten_entry (JArr (Prim p # others)) newKey result = flat_set (newKey @ ''.0'') p result"
| "flatten_entry (Prim p) newKey result = flat_set newKey p result"

text \<open>
  A \<open>for ... in\<close> loop over a string visits its indices, and over any other primitive
  nothing.
\<close>

primrec flatten_chars :: "string \<Rightarrow> nat \<Rightarrow> string \<Rightarrow> flat \<Rightarrow> flat" where
  "flatten_chars [] i prefix result = result"
| "flatten_chars (c # cs) i prefix result =
     flatten_chars cs (Suc i) prefix (flat_set (new_key prefix (nat_to_string i)) (PStr [c]) result)"

fun flattenObject :: "jsval \<Rightarrow> string \<Rightarrow> flat" where
  "flattenObject (JObj kvs) prefix = flatten_props kvs prefix []"
| "flattenObject (JArr xs) prefix = flatten_elems xs 0 prefix []"
| "flattenObject (Prim (PStr s)) prefix = flatten_chars s 0 prefix []"
| "flattenObject (Prim p) prefix = []"

section \<open>Path codec: the re-nesting of a flat row (localService.ts, generateLocalData)\<close>

text \<open>
  \<^verbatim>\<open>
  const row = {};
  Object.keys(flatRow).forEach(key => {
      const value = flatRow[key];
      const parts = key.split('.');
      let current: any = row;
      for (let k = 0; k < parts.length - 1; k++) {
          const part = parts[k];
          const nextPart = parts[k+1];
          const isNextArray = !isNaN(Number(nextPart));
          if (current[part] === undefined) {
              current[part] = isNextArray ? [] : {};
          }
          current = current[part];
      }
      const lastKey = parts[parts.length - 1];
      if (Array.isArray(current) && !isNaN(Number(lastKey))) {
           current[Number(lastKey)] = value;
      } else {
           current[lastKey] = value;
      }
  });
  \<close>
  \<open>current\<close> aliases a container inside \<open>row\<close>; the model returns the updated container
  and writes it back into its parent. The source files are ES modules, hence strict
  code: an assignment to a property of a primitive raises a \<open>TypeError\<close>, as does any
  access to a property of \<open>null\<close>.
\<close>

text \<open>\<open>current[part]\<close>, read.\<close>

fun read_prop :: "jsval \<Rightarrow> string \<Rightarrow> js_error + jsval" where
  "read_prop (JObj kvs) part =
     (case map_of kvs part of
        Some v \<Rightarrow> Inr v
      | None \<Rightarrow> if part \<in> set object_proto_names then Inl Unmodelled else Inr (Prim PUndefined))"
| "read_prop (JArr xs) part =
     (case array_index part of
        Some n \<Rightarrow> Inr (if n < length xs then xs ! n else Prim PUndefined)
      | None \<Rightarrow> Inl Unmodelled)"
| "read_prop (Prim PNull) part = Inl TypeError"
| "read_prop (Prim PUndefined) part = Inl TypeError"
| "read_prop (Prim p) part = Inl Unmodelled"

text \<open>\<open>xs[n] = v\<close> for an array: an element is replaced or appended; a larger index would leave a hole.\<close>

definition write_index :: "jsval list \<Rightarrow> nat \<Rightarrow> jsval \<Rightarrow> js_error + jsval" where
  "write_index xs n v =
     (if n < length xs then Inr (JArr (xs[n := v]))
      else if n = length xs then Inr (JArr (xs @ [v]))
      else Inl Unmodelled)"

text \<open>\<open>current[part] = v\<close> for a string \<open>part\<close>.\<close>

fun write_prop :: "jsval \<Rightarrow> string \<Rightarrow> jsval \<Rightarrow> js_error + jsval" where
  "write_prop (JObj kvs) part v =
     (if part = ''__proto__'' then Inl Unmodelled else Inr (JObj (own_set part v kvs)))"
| "write_prop (JArr xs) part v =
     (case array_index part of Some n \<Rightarrow> write_index xs n v | None \<Rightarrow> Inl Unmodelled)"
| "write_prop (Prim p) part v = Inl TypeError"

text \<open>The assignment through the last segment.\<close>

fun assign_last :: "jsval \<Rightarrow> string \<Rightarrow> jsval \<Rightarrow> js_error + jsval" where
  "assign_last (JArr xs) lastKey v =
     (if \<not> isNaN (string_to_number lastKey)
      then (case number_index (string_to_number lastKey) of
              Some n \<Rightarrow> write_index xs n v
            | None \<Rightarrow> Inl Unmodelled)
      else write_prop (JArr xs) lastKey v)"
| "assign_last current lastKey v = write_prop current lastKey v"

fun set_path :: "string list \<Rightarrow> jsval \<Rightarrow> jsval \<Rightarrow> js_error + jsval" where
  "set_path [] v current = Inl Unmodelled"
| "set_path [lastKey] v current = assign_last current lastKey v"
| "set_path (part # nextPart # rest) v current =
     (case read_prop current part of
        Inl e \<Rightarrow> Inl e
      | Inr child \<Rightarrow>
          let isNextArray = \<not> isNaN (string_to_number nextPart);
              fresh = (if isNextArray then JArr [] else JObj [])
          in (case (if child = Prim PUndefined then write_prop current part fresh
                    else Inr current) of
                Inl e \<Rightarrow> Inl e
              | Inr current1 \<Rightarrow>
                  (case set_path (nextPart # rest) v
                          (if child = Prim PUndefined then fresh else child) of
                     Inl e \<Rightarrow> Inl e
                   | Inr child' \<Rightarrow> write_prop current1 part child')))"

fun unflatten_from :: "flat \<Rightarrow> jsval \<Rightarrow> js_error + jsval" where
  "unflatten_from [] row = Inr row"
| "unflatten_from ((key', value) # rest) row =
     (case set_path (split_dot key') (Prim value) row of
        Inl e \<Rightarrow> Inl e
      | Inr row' \<Rightarrow> unflatten_from rest row')"

definition unflatten :: "flat \<Rightarrow> js_error + jsval" where
  "unflatten flatRow = unflatten_from flatRow (JObj [])"

section \<open>The generation loop (localService.ts, generateLocalData)\<close>

text \<open>
  \<^verbatim>\<open>
  export const generateLocalData = (count: number, fields: FieldConfig[]): any[] => {
      const result = [];
      const state: Record<string, any> = {};
      fields.forEach(f => {
          if (f.strategy === GenerationStrategy.INCREMENT) {
              state[f.key] = f.options?.start ?? 1;
          }
      });
      for (let i = 0; i < count; i++) {
          const flatRow: Record<string, any> = {};
          fields.forEach(field => { ... flatRow[field.key] = val; });
          const row = {};
          Object.keys(flatRow).forEach(key => { ... });
          result.push(row);
      }
      return result;
  }
  \<close>
\<close>

definition init_state :: "FieldConfig list \<Rightarrow> gstate" where
  "init_state fields' =
     foldl (\<lambda>state f. if strategy f = INCREMENT
                        then set_counter (key f) (start_or_1 f) state else state)
       \<lparr> counters = Map.empty, draws = 0 \<rparr> fields'"

text \<open>
  \<open>flatRow[field.key] = val\<close>. Assigning \<open>null\<close> to \<open>__proto__\<close> would replace the prototype
  of the row (unmodelled); assigning another primitive to it is ignored.
\<close>

definition row_assign :: "string \<Rightarrow> prim \<Rightarrow> flat \<Rightarrow> js_error + flat" where
  "row_assign k val flatRow =
     (if k = ''__proto__'' then (if val = PNull then Inl Unmodelled else Inr flatRow)
      else Inr (own_set k val flatRow))"

text \<open>
  The inner \<open>forEach\<close> over a list of fields. Besides the state and the flat row it
  returns the value computed for each field, in the order of the fields.
\<close>

fun gen_fields ::
  "(GenerationStrategy \<Rightarrow> generator) \<Rightarrow> nat \<Rightarrow> FieldConfig list \<Rightarrow> nat \<Rightarrow> FieldConfig list
     \<Rightarrow> gstate \<Rightarrow> flat \<Rightarrow> js_error + (gstate \<times> prim list \<times> flat)" where
  "gen_fields G count fields' i [] state flatRow = Inr (state, [], flatRow)"
| "gen_fields G count fields' i (field # rest) state flatRow =
     (case gen_field G count fields' i state field of
        Inl e \<Rightarrow> Inl e
      | Inr (val, state') \<Rightarrow>
          (case row_assign (key field) val flatRow of
             Inl e \<Rightarrow> Inl e
           | Inr flatRow' \<Rightarrow>
               (case gen_fields G count fields' i rest state' flatRow' of
                  Inl e \<Rightarrow> Inl e
                | Inr (state'', vals, flatRow'') \<Rightarrow> Inr (state'', val # vals, flatRow''))))"

text \<open>
  The outer loop: \<open>rows_upto G count fields n\<close> is the state and the rows after the
  iterations \<open>i = 0, ..., n - 1\<close>; each row is paired with the values computed for its
  fields. The run is the loop after \<open>count\<close> iterations.
\<close>

primrec rows_upto ::
  "(GenerationStrategy \<Rightarrow> generator) \<Rightarrow> nat \<Rightarrow> FieldConfig list \<Rightarrow> nat
     \<Rightarrow> js_error + (gstate \<times> (prim list \<times> jsval) list)" where
  "rows_upto G count fields' 0 = Inr (init_state fields', [])"
| "rows_upto G count fields' (Suc i) =
     (case rows_upto G count fields' i of
        Inl e \<Rightarrow> Inl e
      | Inr (state, result) \<Rightarrow>
          (case gen_fields G count fields' i fields' state [] of
             Inl e \<Rightarrow> Inl e
           | Inr (state', vals, flatRow) \<Rightarrow>
               (case unflatten flatRow of
                  Inl e \<Rightarrow> Inl e
                | Inr row \<Rightarrow> Inr (state', result @ [(vals, row)]))))"

definition local_run ::
  "(GenerationStrategy \<Rightarrow> generator) \<Rightarrow> nat \<Rightarrow> FieldConfig list
     \<Rightarrow> js_error + (prim list \<times> jsval) list" where
  "local_run G count fields' =
     (case rows_upto G count fields' count of Inl e \<Rightarrow> Inl e | Inr (state, result) \<Rightarrow> Inr result)"

definition generateLocalData ::
  "(nat \<Rightarrow> prim) \<Rightarrow> nat \<Rightarrow> FieldConfig list \<Rightarrow> js_error + jsval list" where
  "generateLocalData rnd count fields' =
     (case local_run (generators rnd) count fields' of
        Inl e \<Rightarrow> Inl e
      | Inr result \<Rightarrow> Inr (map snd result))"

section \<open>Delegated execution (geminiService.ts, executeGeneratedCode)\<close>

text \<open>
  \<^verbatim>\<open>
  export const executeGeneratedCode = (code: string, count: number, fields: FieldConfig[]): any[] => {
    try {
      const wrappedCode = `
        ${code}
        return generateData(count, fields);
      `;
      const func = new Function('count', 'fields', wrappedCode);
      const result = func(count, fields);
      if (!Array.isArray(result)) {
          throw new Error("Generated code did not return an Array.");
      }
      return result;
    } catch (e: any) {
      console.error("Execution Error:", e);
      throw new Error(`Failed to execute generation logic: ${e.message}`);
    }
  };
  \<close>
  The synthesized program is represented by what it does when it is compiled and called
  with \<open>(count, fields)\<close>: it returns a value or it throws one (a syntax error of the
  source text is a throw of the compilation, inside the same \<open>try\<close>). JavaScript can throw
  any value. \<open>ThrownError m\<close> is a thrown object whose \<open>message\<close> property renders as the text
  \<open>m\<close> (every \<open>Error\<close> is one); \<open>ThrownPrim p\<close> is a thrown primitive. A program that never
  returns is not represented: the executor then never returns either.
\<close>

datatype thrown = ThrownError string | ThrownPrim prim

datatype outcome = Returns jsval | Throws thrown

type_synonym program = "nat \<Rightarrow> FieldConfig list \<Rightarrow> outcome"

text \<open>
  What the executor raises: the wrapping \<open>Error\<close> with its message, or the \<open>TypeError\<close> that
  the handler itself raises when it evaluates \<open>e.message\<close> for \<open>e\<close> being \<open>null\<close> or
  \<open>undefined\<close>.
\<close>

datatype exec_error = ExecutionFailure string | HandlerTypeError

text \<open>\<open>`${e.message}`\<close>: a primitive other than \<open>null\<close> and \<open>undefined\<close> has no \<open>message\<close>.\<close>

fun message_text :: "thrown \<Rightarrow> string option" where
  "message_text (ThrownError m) = Some m"
| "message_text (ThrownPrim PNull) = None"
| "message_text (ThrownPrim PUndefined) = None"
| "message_text (ThrownPrim p) = Some ''undefined''"

definition handler :: "thrown \<Rightarrow> exec_error + jsval list" where
  "handler e =
     (case message_text e of
        None \<Rightarrow> Inl HandlerTypeError
      | Some m \<Rightarrow> Inl (ExecutionFailure (''Failed to execute generation logic: '' @ m)))"

definition executeGeneratedCode :: "program \<Rightarrow> nat \<Rightarrow> FieldConfig list \<Rightarrow> exec_error + jsval list" where
  "executeGeneratedCode code count fields' =
     (case code count fields' of
        Throws e \<Rightarrow> handler e
      | Returns result \<Rightarrow>
          (case result of
             JArr xs \<Rightarrow> Inr xs
           | _ \<Rightarrow> handler (ThrownError ''Generated code did not return an Array.'')))"

section \<open>Auxiliary notions for the statements\<close>


text \<open>
  The records on which the path codec is shown to round-trip. A key is plain when it
  contains no dot, does not read as a number (\<open>Number(k)\<close> is \<open>NaN\<close>; in particular it is
  not empty), and is not the name of a member of \<open>Object.prototype\<close>. Below the root,
  every array has exactly one element and every object at least one property; the keys
  of an object are plain and pairwise distinct.
\<close>

definition plain_key :: "string \<Rightarrow> bool" where
  "plain_key k =
     (CHR ''.'' \<notin> set k \<and> isNaN (string_to_number k) \<and> k \<notin> set object_proto_names)"

fun codec_value :: "jsval \<Rightarrow> bool"
  and codec_props :: "(string \<times> jsval) list \<Rightarrow> bool" where
  "codec_value (Prim p) = True"
| "codec_value (JArr []) = False"
| "codec_value (JArr [x]) = codec_value x"
| "codec_value (JArr (x # y # zs)) = False"
| "codec_value (JObj kvs) = (kvs \<noteq> [] \<and> codec_props kvs)"
| "codec_props [] = True"
| "codec_props ((k, v) # rest) =
     (plain_key k \<and> k \<notin> fst ` set rest \<and> codec_value v \<and> codec_props rest)"

fun codec_record :: "jsval \<Rightarrow> bool" where
  "codec_record (JObj kvs) = codec_props kvs"
| "codec_record v = False"

text \<open>
  The leaves of a value with their paths (lists of segments), in the order in which
  \<open>flattenObject\<close> visits them; of an array only the first element is visited.
\<close>

fun leaves :: "jsval \<Rightarrow> (string list \<times> prim) list"
  and leaves_props :: "(string \<times> jsval) list \<Rightarrow> (string list \<times> prim) list" where
  "leaves (Prim p) = [([], p)]"
| "leaves (JArr []) = []"
| "leaves (JArr (x # xs)) = map (\<lambda>(p, w). (''0'' # p, w)) (leaves x)"
| "leaves (JObj kvs) = leaves_props kvs"
| "leaves_props [] = []"
| "leaves_props ((k, v) # rest) = map (\<lambda>(p, w). (k # p, w)) (leaves v) @ leaves_props rest"

text \<open>The segments of a path joined with dots.\<close>

fun join_path :: "string list \<Rightarrow> string" where
  "join_path [] = []"
| "join_path [s] = s"
| "join_path (s # t # rest) = s @ ''.'' @ join_path (t # rest)"

text \<open>The re-nesting loop with every key already split into its segments.\<close>

fun build :: "(string list \<times> prim) list \<Rightarrow> jsval \<Rightarrow> js_error + jsval" where
  "build [] row = Inr row"
| "build ((p, w) # rest) row =
     (case set_path p (Prim w) row of Inl e \<Rightarrow> Inl e | Inr row' \<Rightarrow> build rest row')"

fun is_container :: "jsval \<Rightarrow> bool" where
  "is_container (Prim p) = False"
| "is_container v = True"

text \<open>
  A slot: a container \<open>c\<close> that has no property \<open>k\<close> yet and into which the re-nesting
  loop can put a child under \<open>k\<close>; \<open>mk child\<close> is the container once \<open>k\<close> holds \<open>child\<close>.
\<close>

definition slot :: "jsval \<Rightarrow> string \<Rightarrow> (jsval \<Rightarrow> jsval) \<Rightarrow> bool" where
  "slot c k mk =
     (read_prop c k = Inr (Prim PUndefined)
      \<and> (\<forall>ch. write_prop c k ch = Inr (mk ch))
      \<and> (\<forall>ch. read_prop (mk ch) k = Inr ch)
      \<and> (\<forall>ch ch'. write_prop (mk ch) k ch' = Inr (mk ch'))
      \<and> (\<forall>w. assign_last c k (Prim w) = Inr (mk (Prim w))))"

text \<open>A flat object whose keys are pairwise distinct, none an array index or \<open>__proto__\<close>.\<close>

definition plain_flat :: "flat \<Rightarrow> bool" where
  "plain_flat r =
     (distinct (map fst r) \<and> (\<forall>k \<in> fst ` set r. k \<noteq> ''__proto__'' \<and> array_index k = None))"

text \<open>The key of a leaf at path \<open>p\<close> below the key \<open>newKey\<close>, and the flat entries of a list of leaves.\<close>

definition key_under :: "string \<Rightarrow> string list \<Rightarrow> string" where
  "key_under newKey p = (if p = [] then newKey else newKey @ ''.'' @ join_path p)"

definition rel :: "string \<Rightarrow> (string list \<times> prim) list \<Rightarrow> flat" where
  "rel newKey L = map (\<lambda>(p, w). (key_under newKey p, w)) L"

definition relp :: "string \<Rightarrow> (string list \<times> prim) list \<Rightarrow> flat" where
  "relp prefix L = map (\<lambda>(p, w). (new_key prefix (join_path p), w)) L"

section \<open>Example configurations\<close>

text \<open>
  Concrete inputs for the closed statements of the results part. \<open>no_random\<close> is a random
  source whose every draw is \<open>undefined\<close>; none of the examples draws from it.
\<close>

definition no_random :: "nat \<Rightarrow> prim" where
  "no_random n = PUndefined"

definition mk_field :: "string \<Rightarrow> FieldType \<Rightarrow> GenerationStrategy \<Rightarrow> FieldOptions \<Rightarrow> FieldConfig" where
  "mk_field k t s opts =
     \<lparr> key = k, ftype = t, strategy = s, options = Some opts, description = None,
       sampleValue = PUndefined \<rparr>"

text \<open>A counter \<open>seq\<close> from 1 in steps of 1.\<close>

definition ex_seq :: FieldConfig where
  "ex_seq = mk_field ''seq'' NUMBER INCREMENT
     (no_options\<lparr>start := Some (Num 1), step := Some (Num 1)\<rparr>)"

text \<open>A grouping key \<open>team\<close> over \<open>A\<close>, \<open>B\<close>, two rows per group, resetting \<open>seq\<close>.\<close>

definition ex_team :: FieldConfig where
  "ex_team = mk_field ''team'' STRING ENUM
     (no_options\<lparr>values_opt := Some [''A'', ''B''],
        groupingConfig := Some \<lparr> group_strategy = Fixed, countPerGroup = Some (Num 2),
          resetFields = [''seq''] \<rparr>\<rparr>)"


text \<open>Static fields: a number given as \<open>"42"\<close>, a boolean given as \<open>"true"\<close>, a number given as text.\<close>

definition ex_answer :: FieldConfig where
  "ex_answer = mk_field ''answer'' NUMBER STATIC (no_options\<lparr>staticValue := PStr ''42''\<rparr>)"

definition ex_flag :: FieldConfig where
  "ex_flag = mk_field ''flag'' BOOLEAN STATIC (no_options\<lparr>staticValue := PStr ''true''\<rparr>)"

definition ex_text :: FieldConfig where
  "ex_text = mk_field ''size'' NUMBER STATIC (no_options\<lparr>staticValue := PStr ''forty-two''\<rparr>)"

text \<open>The static number \<open>"42"\<close> again, now carrying a grouping configuration over \<open>"7"\<close>.\<close>

definition ex_answer_grouped :: FieldConfig where
  "ex_answer_grouped = mk_field ''answer'' NUMBER STATIC
     (no_options\<lparr>staticValue := PStr ''42'', values_opt := Some [''7''],
        groupingConfig := Some \<lparr> group_strategy = Fixed, countPerGroup = Some (Num 1),
          resetFields = [] \<rparr>\<rparr>)"



text \<open>A field of strategy increment that carries a grouping configuration with no values.\<close>

definition ex_seq_grouped :: FieldConfig where
  "ex_seq_grouped = mk_field ''seq'' NUMBER INCREMENT
     (no_options\<lparr>start := Some (Num 1), step := Some (Num 1),
        groupingConfig := Some \<lparr> group_strategy = Even, countPerGroup = None,
          resetFields = [] \<rparr>\<rparr>)"

text \<open>
  Two nested records: \<open>{"tags": []}\<close>, and
  \<open>{"user": {"name": "Ann", "roles": [{"title": "admin"}]}, "scores": [[7]], "note": null}\<close>.
\<close>

definition ex_empty_array :: jsval where
  "ex_empty_array = JObj [(''tags'', JArr [])]"

definition ex_nested :: jsval where
  "ex_nested =
     JObj [(''user'', JObj [(''name'', Prim (PStr ''Ann'')),
                            (''roles'', JArr [JObj [(''title'', Prim (PStr ''admin''))]])]),
           (''scores'', JArr [JArr [Prim (PNum (Num 7))]]),
           (''note'', Prim PNull)]"

text \<open>
  Three more records: \<open>{"o": {}}\<close>, \<open>{"a.b": 1}\<close> and \<open>{"m": {"0": 1}}\<close>.
\<close>

definition ex_empty_object :: jsval where
  "ex_empty_object = JObj [(''o'', JObj [])]"

definition ex_dotted_key :: jsval where
  "ex_dotted_key = JObj [(''a.b'', Prim (PNum (Num 1)))]"

definition ex_numeric_key :: jsval where
  "ex_numeric_key = JObj [(''m'', JObj [(''0'', Prim (PNum (Num 1)))])]"

text \<open>
  Three synthesized programs: one that executes \<open>throw null\<close>, one that throws an \<open>Error\<close>
  with the message \<open>boom\<close>, and one that returns \<open>count\<close> empty records.
\<close>

definition ex_throws_null :: program where
  "ex_throws_null count fields' = Throws (ThrownPrim PNull)"

definition ex_throws_boom :: program where
  "ex_throws_boom count fields' = Throws (ThrownError ''boom'')"

definition ex_returns_rows :: program where
  "ex_returns_rows count fields' = Returns (JArr (replicate count (JObj [])))"

section \<open>Results about local inference\<close>

lemma isInteger_of_int: "isInteger (Num (of_int n))"
  by simp


text \<open>
  No lower-cased string contains the capital \<open>I\<close>, so none ends with \<open>Id\<close>.
\<close>

lemma lower_char_not_I: "lower_char c \<noteq> CHR ''I''"
proof -
  have *: "of_char (char_of m :: char) = m" if "m < 256" for m :: nat
    using that by simp
  have lt: "(of_char c :: nat) < 256" by simp
  show ?thesis
  proof (cases "(65 \<le> (of_char c :: nat) \<and> (of_char c :: nat) \<le> 90)
       \<or> (192 \<le> (of_char c :: nat) \<and> (of_char c :: nat) \<le> 222 \<and> (of_char c :: nat) \<noteq> 215)")
    case True
    then have "lower_char c = char_of ((of_char c :: nat) + 32)"
      by (simp add: lower_char_def Let_def)
    moreover have "(of_char (char_of ((of_char c :: nat) + 32) :: char) :: nat) \<noteq> 73"
    proof (cases "(of_char c :: nat) \<le> 90")
      case le: True
      with True have "(of_char c :: nat) + 32 < 256" "65 \<le> (of_char c :: nat)" by auto
      then show ?thesis using *[of "(of_char c :: nat) + 32"] by simp
    next
      case False
      with True have "(of_char c :: nat) + 32 < 256" "192 \<le> (of_char c :: nat)" by auto
      then show ?thesis using *[of "(of_char c :: nat) + 32"] by simp
    qed
    moreover have "(of_char (CHR ''I'') :: nat) = 73" by simp
    ultimately show ?thesis by metis
  next
    case False
    then have "lower_char c = c" unfolding lower_char_def Let_def by (simp only: if_False)
    moreover from False have "(of_char c :: nat) \<noteq> 73" by auto
    moreover have "(of_char (CHR ''I'') :: nat) = 73" by simp
    ultimately show ?thesis by metis
  qed
qed

lemma toLowerCase_not_Id: "\<not> endsWith (toLowerCase s) ''Id''"
proof
  assume "endsWith (toLowerCase s) ''Id''"
  then have "drop (length s - 2) (map lower_char s) = ''Id''"
    by (simp add: endsWith_def toLowerCase_def numeral_2_eq_2)
  then have "CHR ''I'' \<in> set (drop (length s - 2) (map lower_char s))" by simp
  then have "CHR ''I'' \<in> set (map lower_char s)" by (rule in_set_dropD)
  then obtain c where "lower_char c = CHR ''I''" by auto
  then show False using lower_char_not_I [of c] by simp
qed

text \<open>
  For an integer sample under a key whose lower-cased form is \<open>id\<close> or ends with \<open>_id\<close>,
  local inference yields \<open>increment\<close> with \<open>start\<close> the sample value and \<open>step = 1\<close>.
\<close>

lemma determineStrategy_increment:
  assumes "k = toLowerCase key'" and "k = ''id'' \<or> endsWith k ''_id''"
  shows "determineStrategy dateParses key' (PNum (Num (of_int n))) =
     (INCREMENT, Some (no_options\<lparr>start := Some (Num (of_int n)), step := Some (Num 1)\<rparr>), None)"
  using assms by auto

text \<open>
  Claim C3 (defect in the code). The key is lower-cased before it is tested, so the
  third test \<open>k.endsWith('Id')\<close> can never succeed, whatever the key: for the integer
  sample \<open>7\<close> under the camel-case key \<open>userId\<close> local inference yields \<open>random_int\<close> with
  bounds \<open>[0, 14]\<close>, not \<open>increment\<close> with \<open>start = 7\<close>, \<open>step = 1\<close>.
\<close>

theorem determineStrategy_userId:
  "determineStrategy False ''userId'' (PNum (Num 7)) =
     (RANDOM_INT, Some (no_options\<lparr>min_opt := Some (Num 0), max_opt := Some (Num 14)\<rparr>), None)
   \<and> \<not> endsWith (toLowerCase key') ''Id''"
proof
  show "determineStrategy False ''userId'' (PNum (Num 7)) =
     (RANDOM_INT, Some (no_options\<lparr>min_opt := Some (Num 0), max_opt := Some (Num 14)\<rparr>), None)"
    by code_simp
  show "\<not> endsWith (toLowerCase key') ''Id''"
    by (rule toLowerCase_not_Id)
qed




section \<open>Results about the structural-change classifier\<close>

text \<open>
  Claim C2. \<open>isStructuralChange old new\<close> is true exactly when the key differs, or the type
  differs, or the strategy differs, or one of the two carries a \<open>groupingConfig\<close> and the
  other does not. Consequently an edit that replaces the options of a field and leaves
  the presence of \<open>groupingConfig\<close> as it was (new bounds, enum values, grouping counts,
  reset fields, pattern, static value, format) is never structural.
\<close>

theorem isStructuralChange_iff:
  "(isStructuralChange f1 f2 \<longleftrightarrow>
      (key f1 \<noteq> key f2 \<or> ftype f1 \<noteq> ftype f2 \<or> strategy f1 \<noteq> strategy f2
       \<or> (Option.bind (options f1) groupingConfig = None)
           \<noteq> (Option.bind (options f2) groupingConfig = None)))
   \<and> ((Option.bind os groupingConfig = None) = (Option.bind (options f1) groupingConfig = None)
        \<longrightarrow> \<not> isStructuralChange f1 (f1\<lparr>options := os\<rparr>))"
  by (auto simp: isStructuralChange_def hasGroup_def Let_def split: option.splits)

theorem isStructuralChange_iff_witness:
  "isStructuralChange
     \<lparr> key = ''team'', ftype = STRING, strategy = ENUM,
       options = Some (no_options\<lparr>values_opt := Some [''A'', ''B'']\<rparr>),
       description = None, sampleValue = PStr ''A'' \<rparr>
     \<lparr> key = ''team'', ftype = STRING, strategy = ENUM,
       options = Some (no_options\<lparr>values_opt := Some [''A'', ''B''],
         groupingConfig := Some \<lparr> group_strategy = Fixed, countPerGroup = Some (Num 2),
           resetFields = [] \<rparr>\<rparr>),
       description = None, sampleValue = PStr ''A'' \<rparr>
   \<and> \<not> isStructuralChange
     \<lparr> key = ''team'', ftype = STRING, strategy = ENUM,
       options = Some (no_options\<lparr>values_opt := Some [''A'', ''B'']\<rparr>),
       description = None, sampleValue = PStr ''A'' \<rparr>
     (\<lparr> key = ''team'', ftype = STRING, strategy = ENUM,
       options = Some (no_options\<lparr>values_opt := Some [''A'', ''B'']\<rparr>),
       description = None, sampleValue = PStr ''A'' \<rparr>
      \<lparr>options := Some (no_options\<lparr>values_opt := Some [''A'', ''B'', ''C''],
         format := Some ''YYYY''\<rparr>)\<rparr>)"
  using
    isStructuralChange_iff [of
      "\<lparr> key = ''team'', ftype = STRING, strategy = ENUM,
         options = Some (no_options\<lparr>values_opt := Some [''A'', ''B'']\<rparr>),
         description = None, sampleValue = PStr ''A'' \<rparr>"
      "\<lparr> key = ''team'', ftype = STRING, strategy = ENUM,
         options = Some (no_options\<lparr>values_opt := Some [''A'', ''B''],
           groupingConfig := Some \<lparr> group_strategy = Fixed, countPerGroup = Some (Num 2),
             resetFields = [] \<rparr>\<rparr>),
         description = None, sampleValue = PStr ''A'' \<rparr>"
      "Some (no_options\<lparr>values_opt := Some [''A'', ''B'', ''C''], format := Some ''YYYY''\<rparr>)"]
  by (simp add: no_options_def)

section \<open>Results about the generation loop\<close>

subsection \<open>The shape of a run\<close>

lemma gen_fields_length:
  "gen_fields G count fields' i fs state flatRow = Inr (state', vals, flatRow')
   \<Longrightarrow> length vals = length fs"
proof (induction fs arbitrary: state flatRow state' vals flatRow')
  case Nil
  then show ?case by simp
next
  case (Cons f fs)
  then show ?case
    by (auto split: sum.splits prod.splits)
qed

text \<open>Every value of a row is the result of the loop body for its field, from some state.\<close>

lemma gen_fields_nth:
  "gen_fields G count fields' i fs state flatRow = Inr (state', vals, flatRow')
   \<Longrightarrow> j < length fs
   \<Longrightarrow> \<exists>s s'. gen_field G count fields' i s (fs ! j) = Inr (vals ! j, s')"
proof (induction fs arbitrary: state flatRow state' vals flatRow' j)
  case Nil
  then show ?case by simp
next
  case (Cons f fs)
  from Cons.prems(1) obtain val st1 row1 st2 vs row2 where
    step: "gen_field G count fields' i state f = Inr (val, st1)"
    and rest: "gen_fields G count fields' i fs st1 row1 = Inr (st2, vs, row2)"
    and vals: "vals = val # vs"
    by (auto split: sum.splits prod.splits)
  show ?case
  proof (cases j)
    case 0
    with step vals show ?thesis by auto
  next
    case (Suc j')
    with Cons.prems(2) have "j' < length fs" by simp
    from Cons.IH [OF rest this] Suc vals show ?thesis by auto
  qed
qed

lemma rows_upto_length:
  "rows_upto G count fields' n = Inr (state, result) \<Longrightarrow> length result = n"
  by (induction n arbitrary: state result) (auto split: sum.splits prod.splits)

text \<open>
  A run that returns has passed through every earlier iteration: iteration \<open>i\<close> started
  from the state left by the iterations before it and produced row \<open>i\<close>.
\<close>

lemma rows_upto_row:
  "rows_upto G count fields' n = Inr (state, result) \<Longrightarrow> i < n
   \<Longrightarrow> \<exists>s r s' flatRow.
         rows_upto G count fields' i = Inr (s, r)
       \<and> gen_fields G count fields' i fields' s [] = Inr (s', fst (result ! i), flatRow)
       \<and> unflatten flatRow = Inr (snd (result ! i))"
proof (induction n arbitrary: state result)
  case 0
  then show ?case by simp
next
  case (Suc n)
  from Suc.prems(1) obtain s r s' vals flatRow row where
    prev: "rows_upto G count fields' n = Inr (s, r)"
    and body: "gen_fields G count fields' n fields' s [] = Inr (s', vals, flatRow)"
    and unfl: "unflatten flatRow = Inr row"
    and res: "result = r @ [(vals, row)]"
    by (auto split: sum.splits prod.splits)
  have len: "length r = n" using prev by (rule rows_upto_length)
  show ?case
  proof (cases "i = n")
    case True
    with prev body unfl res len show ?thesis by (simp add: nth_append)
  next
    case False
    with Suc.prems(2) have "i < n" by simp
    from Suc.IH [OF prev this] res len \<open>i < n\<close> show ?thesis
      by (simp add: nth_append)
  qed
qed

lemma local_run_row:
  assumes "local_run G count fields' = Inr rows" and "i < count"
  shows "length rows = count"
    and "\<exists>s r s' flatRow.
         rows_upto G count fields' i = Inr (s, r)
       \<and> gen_fields G count fields' i fields' s [] = Inr (s', fst (rows ! i), flatRow)
       \<and> unflatten flatRow = Inr (snd (rows ! i))"
proof -
  from assms(1) obtain st where up: "rows_upto G count fields' count = Inr (st, rows)"
    by (auto simp: local_run_def split: sum.splits prod.splits)
  show "length rows = count" using up by (rule rows_upto_length)
  show "\<exists>s r s' flatRow.
         rows_upto G count fields' i = Inr (s, r)
       \<and> gen_fields G count fields' i fields' s [] = Inr (s', fst (rows ! i), flatRow)
       \<and> unflatten flatRow = Inr (snd (rows ! i))"
    using rows_upto_row [OF up assms(2)] .
qed

lemma local_run_value:
  assumes "local_run G count fields' = Inr rows" and "i < count" and "j < length fields'"
  shows "\<exists>s s'. gen_field G count fields' i s (fields' ! j) = Inr (fst (rows ! i) ! j, s')"
proof -
  from local_run_row(2) [OF assms(1,2)] obtain s s' flatRow where
    "gen_fields G count fields' i fields' s [] = Inr (s', fst (rows ! i), flatRow)"
    by blast
  from gen_fields_nth [OF this assms(3)] show ?thesis .
qed

subsection \<open>The grouping branch\<close>

lemma gen_field_grouping:
  assumes "options f = Some opts" and "groupingConfig opts = Some gc"
  shows "gen_field G count fields' i state f =
     Inr (enforce_type f (values_at (group_values opts) (group_idx count i opts gc)),
          group_resets count fields' i opts gc state)"
  using assms by (simp add: gen_field_def options_or_empty_def)

lemma enforce_type_undefined [simp]: "enforce_type f PUndefined = PUndefined"
  by (simp add: enforce_type_def)



lemma values_at_empty [simp]: "values_at [] n = PUndefined"
  by (cases n) auto


lemma group_len_max: "group_len opts = max (length (group_values opts)) 1"
  by (cases "group_values opts") (auto simp: group_len_def)

text \<open>
  Claim C10. For a field whose options carry a \<open>groupingConfig\<close>, the value and the state
  that the loop body produces do not depend on the table of generators \<open>G\<close>, which is
  arbitrary here: no generator is invoked. The value is the cyclic lookup
  \<open>values[floor(i/size) % max(len(values), 1)]\<close>, passed through the type enforcement that
  closes the loop body (which leaves \<open>undefined\<close> alone); the only change of the state is
  the reset at a group boundary. With an empty or absent list of values the value is
  \<open>undefined\<close> in every row, whatever the strategy of the field, and this is the value the
  run stores for the field.
\<close>

theorem grouping_bypasses_generator:
  assumes "options f = Some opts" and "groupingConfig opts = Some gc"
  shows "gen_field G count fields' i state f =
           Inr (enforce_type f
                  (values_at (group_values opts)
                     (num_mod (num_floor (num_div (Num (of_nat i)) (group_size count opts gc)))
                        (Num (of_nat (max (length (group_values opts)) 1))))),
                group_resets count fields' i opts gc state)
       \<and> (values_opt opts = None \<or> values_opt opts = Some [] \<longrightarrow>
            gen_field G count fields' i state f
              = Inr (PUndefined, group_resets count fields' i opts gc state))
       \<and> (local_run G count fields' = Inr rows \<and> i < count \<and> j < length fields'
              \<and> fields' ! j = f \<and> (values_opt opts = None \<or> values_opt opts = Some [])
            \<longrightarrow> fst (rows ! i) ! j = PUndefined)"
proof (intro conjI impI)
  show first: "gen_field G count fields' i state f =
           Inr (enforce_type f
                  (values_at (group_values opts)
                     (num_mod (num_floor (num_div (Num (of_nat i)) (group_size count opts gc)))
                        (Num (of_nat (max (length (group_values opts)) 1))))),
                group_resets count fields' i opts gc state)"
    using gen_field_grouping [OF assms] by (simp add: group_idx_def group_len_max)
  have empty: "gen_field G count fields' i s f
              = Inr (PUndefined, group_resets count fields' i opts gc s)"
    if "values_opt opts = None \<or> values_opt opts = Some []" for s
  proof -
    from that have "group_values opts = []" by (auto simp: group_values_def)
    then show ?thesis using gen_field_grouping [OF assms] by simp
  qed
  show "gen_field G count fields' i state f
              = Inr (PUndefined, group_resets count fields' i opts gc state)"
    if "values_opt opts = None \<or> values_opt opts = Some []"
    using empty [OF that] .
  show "fst (rows ! i) ! j = PUndefined"
    if h: "local_run G count fields' = Inr rows \<and> i < count \<and> j < length fields'
              \<and> fields' ! j = f \<and> (values_opt opts = None \<or> values_opt opts = Some [])"
  proof -
    from h local_run_value [of G count fields' rows i j] obtain s s' where
      "gen_field G count fields' i s f = Inr (fst (rows ! i) ! j, s')" by auto
    moreover from h have "gen_field G count fields' i s f
              = Inr (PUndefined, group_resets count fields' i opts gc s)"
      using empty by blast
    ultimately show ?thesis by simp
  qed
qed

theorem grouping_bypasses_generator_witness:
  "options ex_seq_grouped = Some (no_options\<lparr>start := Some (Num 1), step := Some (Num 1),
        groupingConfig := Some \<lparr> group_strategy = Even, countPerGroup = None,
          resetFields = [] \<rparr>\<rparr>)
   \<and> gen_field (generators no_random) 3 [ex_seq_grouped, ex_team] 2
         (init_state [ex_seq_grouped, ex_team]) ex_seq_grouped
       = Inr (PUndefined,
              group_resets 3 [ex_seq_grouped, ex_team] 2
                (no_options\<lparr>start := Some (Num 1), step := Some (Num 1),
                   groupingConfig := Some \<lparr> group_strategy = Even, countPerGroup = None,
                     resetFields = [] \<rparr>\<rparr>)
                \<lparr> group_strategy = Even, countPerGroup = None, resetFields = [] \<rparr>
                (init_state [ex_seq_grouped, ex_team]))
   \<and> map_sum id (map fst) (local_run (generators no_random) 3 [ex_seq_grouped, ex_team])
       = Inr [[PUndefined, PStr ''A''], [PUndefined, PStr ''A''], [PUndefined, PStr ''B'']]"
proof -
  have o: "options ex_seq_grouped = Some (no_options\<lparr>start := Some (Num 1), step := Some (Num 1),
        groupingConfig := Some \<lparr> group_strategy = Even, countPerGroup = None,
          resetFields = [] \<rparr>\<rparr>)"
    by (simp add: ex_seq_grouped_def mk_field_def)
  have g: "groupingConfig (no_options\<lparr>start := Some (Num 1), step := Some (Num 1),
        groupingConfig := Some \<lparr> group_strategy = Even, countPerGroup = None,
          resetFields = [] \<rparr>\<rparr>) = Some \<lparr> group_strategy = Even, countPerGroup = None,
          resetFields = [] \<rparr>"
    by simp
  have v: "values_opt (no_options\<lparr>start := Some (Num 1), step := Some (Num 1),
        groupingConfig := Some \<lparr> group_strategy = Even, countPerGroup = None,
          resetFields = [] \<rparr>\<rparr>) = None"
    by (simp add: no_options_def)
  have run: "map_sum id (map fst) (local_run (generators no_random) 3 [ex_seq_grouped, ex_team])
       = Inr [[PUndefined, PStr ''A''], [PUndefined, PStr ''A''], [PUndefined, PStr ''B'']]"
    by code_simp
  from grouping_bypasses_generator [OF o g, of "generators no_random" 3
        "[ex_seq_grouped, ex_team]" 2 "init_state [ex_seq_grouped, ex_team]"] v
  have "gen_field (generators no_random) 3 [ex_seq_grouped, ex_team] 2
         (init_state [ex_seq_grouped, ex_team]) ex_seq_grouped
       = Inr (PUndefined,
              group_resets 3 [ex_seq_grouped, ex_team] 2
                (no_options\<lparr>start := Some (Num 1), step := Some (Num 1),
                   groupingConfig := Some \<lparr> group_strategy = Even, countPerGroup = None,
                     resetFields = [] \<rparr>\<rparr>)
                \<lparr> group_strategy = Even, countPerGroup = None, resetFields = [] \<rparr>
                (init_state [ex_seq_grouped, ex_team]))"
    by blast
  with o run show ?thesis by blast
qed

subsection \<open>Fixed grouping\<close>




subsection \<open>Reset at a group boundary\<close>

text \<open>
  Claim C5 (defect in the code). The fields of a row are computed in list order and the
  reset is performed while the grouping field is computed. When the increment field
  precedes the grouping field, its value for the boundary row has already been taken from
  the running counter: with \<open>seq\<close> (start 1, step 1) before \<open>team\<close> (two rows per group,
  resetting \<open>seq\<close>) the four rows carry \<open>seq = 1, 2, 3, 1\<close>, so the boundary row \<open>i = 2\<close> has
  \<open>3\<close> and the restart shows one row late. With \<open>team\<close> before \<open>seq\<close> the same configuration
  yields \<open>1, 2, 1, 2\<close>.
\<close>

theorem reset_depends_on_field_order:
  "map_sum id (map fst) (local_run (generators rnd) 4 [ex_seq, ex_team])
     = Inr [[PNum (Num 1), PStr ''A''], [PNum (Num 2), PStr ''A''],
            [PNum (Num 3), PStr ''B''], [PNum (Num 1), PStr ''B'']]
   \<and> map_sum id (map fst) (local_run (generators rnd) 4 [ex_team, ex_seq])
     = Inr [[PStr ''A'', PNum (Num 1)], [PStr ''A'', PNum (Num 2)],
            [PStr ''B'', PNum (Num 1)], [PStr ''B'', PNum (Num 2)]]"
  by code_simp

subsection \<open>Static coercion\<close>

lemma string_to_number_42: "string_to_number ''42'' = Num 42"
  by code_simp

lemma gen_field_static:
  assumes "strategy f = STATIC" and "options f = Some opts" and "groupingConfig opts = None"
  shows "gen_field (generators rnd) count fields' i state f
           = Inr (enforce_type f (staticValue opts), state)"
  using assms by (simp add: gen_field_def options_or_empty_def)

text \<open>
  Claim C8, as stated, fails: a static field of type number with \<open>staticValue = "42"\<close> that
  also carries a grouping configuration over \<open>"7"\<close> emits the number \<open>7\<close>.
\<close>

theorem static_coercion_counterexample:
  "strategy ex_answer_grouped = STATIC \<and> ftype ex_answer_grouped = NUMBER
   \<and> staticValue (options_or_empty ex_answer_grouped) = PStr ''42''
   \<and> map_sum id (map fst) (local_run (generators no_random) 1 [ex_answer_grouped])
       = Inr [[PNum (Num 7)]]
   \<and> PNum (Num 7) \<noteq> PNum (Num 42)"
  by code_simp

text \<open>
  Claim C8, amended. For a field with strategy static that carries no \<open>groupingConfig\<close>, the
  loop body returns normally from every state in every row, leaves the state as it was,
  and yields: the number \<open>42\<close> when the type is number and \<open>staticValue\<close> is \<open>"42"\<close>; the
  boolean \<open>true\<close> when the type is boolean and \<open>staticValue\<close> is \<open>"true"\<close>; the text itself
  when the type is number and \<open>staticValue\<close> is a text that \<open>Number\<close> maps to \<open>NaN\<close>. In a
  run that returns this is the value of the field in every row.
\<close>

theorem static_coercion:
  assumes "strategy f = STATIC" and "options f = Some opts" and "groupingConfig opts = None"
  shows "(ftype f = NUMBER \<and> staticValue opts = PStr ''42''
            \<longrightarrow> gen_field (generators rnd) count fields' i state f = Inr (PNum (Num 42), state))
       \<and> (ftype f = BOOLEAN \<and> staticValue opts = PStr ''true''
            \<longrightarrow> gen_field (generators rnd) count fields' i state f = Inr (PBool True, state))
       \<and> (ftype f = NUMBER \<and> staticValue opts = PStr s \<and> isNaN (string_to_number s)
            \<longrightarrow> gen_field (generators rnd) count fields' i state f = Inr (PStr s, state))
       \<and> (local_run (generators rnd) count fields' = Inr rows \<and> i < count
              \<and> j < length fields' \<and> fields' ! j = f
            \<longrightarrow> fst (rows ! i) ! j = enforce_type f (staticValue opts))"
proof (intro conjI impI)
  note step = gen_field_static [OF assms, of rnd count fields' i]
  show "gen_field (generators rnd) count fields' i state f = Inr (PNum (Num 42), state)"
    if "ftype f = NUMBER \<and> staticValue opts = PStr ''42''"
    using that step [of state] assms(1) by (simp add: enforce_type_def string_to_number_42)
  show "gen_field (generators rnd) count fields' i state f = Inr (PBool True, state)"
    if "ftype f = BOOLEAN \<and> staticValue opts = PStr ''true''"
    using that step [of state] assms(1) by (simp add: enforce_type_def)
  show "gen_field (generators rnd) count fields' i state f = Inr (PStr s, state)"
    if "ftype f = NUMBER \<and> staticValue opts = PStr s \<and> isNaN (string_to_number s)"
    using that step [of state] assms(1) by (simp add: enforce_type_def)
  show "fst (rows ! i) ! j = enforce_type f (staticValue opts)"
    if h: "local_run (generators rnd) count fields' = Inr rows \<and> i < count
              \<and> j < length fields' \<and> fields' ! j = f"
  proof -
    from h local_run_value [of "generators rnd" count fields' rows i j] obtain s1 s2 where
      "gen_field (generators rnd) count fields' i s1 f = Inr (fst (rows ! i) ! j, s2)" by auto
    with step [of s1] show ?thesis by simp
  qed
qed

theorem static_coercion_witness:
  "gen_field (generators no_random) 2 [ex_answer, ex_flag, ex_text] 0
       (init_state [ex_answer, ex_flag, ex_text]) ex_answer
     = Inr (PNum (Num 42), init_state [ex_answer, ex_flag, ex_text])
   \<and> gen_field (generators no_random) 2 [ex_answer, ex_flag, ex_text] 0
       (init_state [ex_answer, ex_flag, ex_text]) ex_flag
     = Inr (PBool True, init_state [ex_answer, ex_flag, ex_text])
   \<and> isNaN (string_to_number ''forty-two'')
   \<and> gen_field (generators no_random) 2 [ex_answer, ex_flag, ex_text] 0
       (init_state [ex_answer, ex_flag, ex_text]) ex_text
     = Inr (PStr ''forty-two'', init_state [ex_answer, ex_flag, ex_text])
   \<and> local_run (generators no_random) 2 [ex_answer, ex_flag, ex_text]
     = Inr [([PNum (Num 42), PBool True, PStr ''forty-two''],
             JObj [(''answer'', Prim (PNum (Num 42))), (''flag'', Prim (PBool True)),
                   (''size'', Prim (PStr ''forty-two''))]),
            ([PNum (Num 42), PBool True, PStr ''forty-two''],
             JObj [(''answer'', Prim (PNum (Num 42))), (''flag'', Prim (PBool True)),
                   (''size'', Prim (PStr ''forty-two''))])]"
proof -
  have nan: "isNaN (string_to_number ''forty-two'')" by code_simp
  have run: "local_run (generators no_random) 2 [ex_answer, ex_flag, ex_text]
     = Inr [([PNum (Num 42), PBool True, PStr ''forty-two''],
             JObj [(''answer'', Prim (PNum (Num 42))), (''flag'', Prim (PBool True)),
                   (''size'', Prim (PStr ''forty-two''))]),
            ([PNum (Num 42), PBool True, PStr ''forty-two''],
             JObj [(''answer'', Prim (PNum (Num 42))), (''flag'', Prim (PBool True)),
                   (''size'', Prim (PStr ''forty-two''))])]"
    by code_simp
  have a: "strategy ex_answer = STATIC"
    "options ex_answer = Some (no_options\<lparr>staticValue := PStr ''42''\<rparr>)"
    "groupingConfig (no_options\<lparr>staticValue := PStr ''42''\<rparr>) = None"
    "ftype ex_answer = NUMBER" "staticValue (no_options\<lparr>staticValue := PStr ''42''\<rparr>) = PStr ''42''"
    by (simp_all add: ex_answer_def mk_field_def no_options_def)
  have b: "strategy ex_flag = STATIC"
    "options ex_flag = Some (no_options\<lparr>staticValue := PStr ''true''\<rparr>)"
    "groupingConfig (no_options\<lparr>staticValue := PStr ''true''\<rparr>) = None"
    "ftype ex_flag = BOOLEAN" "staticValue (no_options\<lparr>staticValue := PStr ''true''\<rparr>) = PStr ''true''"
    by (simp_all add: ex_flag_def mk_field_def no_options_def)
  have c: "strategy ex_text = STATIC"
    "options ex_text = Some (no_options\<lparr>staticValue := PStr ''forty-two''\<rparr>)"
    "groupingConfig (no_options\<lparr>staticValue := PStr ''forty-two''\<rparr>) = None"
    "ftype ex_text = NUMBER"
    "staticValue (no_options\<lparr>staticValue := PStr ''forty-two''\<rparr>) = PStr ''forty-two''"
    by (simp_all add: ex_text_def mk_field_def no_options_def)
  from static_coercion [OF a(1-3), of no_random 2 "[ex_answer, ex_flag, ex_text]" 0
      "init_state [ex_answer, ex_flag, ex_text]"] a(4,5)
  have 1: "gen_field (generators no_random) 2 [ex_answer, ex_flag, ex_text] 0
       (init_state [ex_answer, ex_flag, ex_text]) ex_answer
     = Inr (PNum (Num 42), init_state [ex_answer, ex_flag, ex_text])"
    by blast
  from static_coercion [OF b(1-3), of no_random 2 "[ex_answer, ex_flag, ex_text]" 0
      "init_state [ex_answer, ex_flag, ex_text]"] b(4,5)
  have 2: "gen_field (generators no_random) 2 [ex_answer, ex_flag, ex_text] 0
       (init_state [ex_answer, ex_flag, ex_text]) ex_flag
     = Inr (PBool True, init_state [ex_answer, ex_flag, ex_text])"
    by blast
  from static_coercion [OF c(1-3), where s = "''forty-two''" and rnd = no_random
      and count = 2 and fields' = "[ex_answer, ex_flag, ex_text]" and i = 0
      and state = "init_state [ex_answer, ex_flag, ex_text]"] c(4,5) nan
  have 3: "gen_field (generators no_random) 2 [ex_answer, ex_flag, ex_text] 0
       (init_state [ex_answer, ex_flag, ex_text]) ex_text
     = Inr (PStr ''forty-two'', init_state [ex_answer, ex_flag, ex_text])"
    by blast
  from 1 2 3 nan run show ?thesis by blast
qed

subsection \<open>Counters\<close>

lemma counters_set_counter:
  "counters (set_counter k v st) k' =
     (if k' = k \<and> k \<noteq> ''__proto__'' then Some v else counters st k')"
  by (simp add: set_counter_def)

lemma counters_reset_field:
  "k \<noteq> resetKey \<Longrightarrow> counters (reset_field fields' st resetKey) k = counters st k"
  by (simp add: reset_field_def counters_set_counter split: option.splits)



text \<open>A generator touches no counter but the one of its own key.\<close>

lemma generators_frame:
  "generators rnd s st k opts = Inr (v, st') \<Longrightarrow> k' \<noteq> k \<Longrightarrow> counters st' k' = counters st k'"
  by (cases s)
     (auto simp: draw_def counters_set_counter Let_def split: if_splits option.splits)


text \<open>The loop body for an increment field that carries no grouping configuration.\<close>

lemma generators_increment:
  "counters st k = Some v \<Longrightarrow> k \<noteq> ''__proto__''
   \<Longrightarrow> generators rnd INCREMENT st k opts
       = Inr (PNum v, set_counter k (num_add v (or_one (step opts))) st)"
  by simp

lemma generators_increment_proto:
  "generators rnd INCREMENT st ''__proto__'' opts = Inl Unmodelled"
  by simp

lemma gen_field_plain:
  assumes "options f = Some opts" and "groupingConfig opts = None"
  shows "gen_field G count fields' i st f =
     (case G (strategy f) st (key f) opts of
        Inl e \<Rightarrow> Inl e
      | Inr (val, st') \<Rightarrow> Inr (enforce_type f val, st'))"
  using assms by (simp add: gen_field_def options_or_empty_def)

lemma gen_field_increment_key:
  assumes "strategy f = INCREMENT" and "options f = Some opts" and "groupingConfig opts = None"
    and "gen_field (generators rnd) count fields' i st f = Inr (val, st')"
  shows "key f \<noteq> ''__proto__''"
proof
  assume "key f = ''__proto__''"
  with assms(1) have "generators rnd (strategy f) st (key f) opts = Inl Unmodelled"
    using generators_increment_proto by simp
  with assms(4) show False
    unfolding gen_field_plain [OF assms(2,3)] by simp
qed

lemma gen_field_increment:
  assumes "strategy f = INCREMENT" and "options f = Some opts" and "groupingConfig opts = None"
    and "gen_field (generators rnd) count fields' i st f = Inr (val, st')"
    and "counters st (key f) = Some v"
  shows "val = PNum v"
    and "counters st' (key f) = Some (num_add v (or_one (step opts)))"
proof -
  from gen_field_increment_key [OF assms(1-4)] have proto: "key f \<noteq> ''__proto__''" .
  from generators_increment [OF assms(5) proto, of rnd opts] assms(1)
  have "generators rnd (strategy f) st (key f) opts
       = Inr (PNum v, set_counter (key f) (num_add v (or_one (step opts))) st)"
    by simp
  with assms(4) have "val = enforce_type f (PNum v)"
    and st': "st' = set_counter (key f) (num_add v (or_one (step opts))) st"
    unfolding gen_field_plain [OF assms(2,3)] by simp_all
  then show "val = PNum v" using assms(1) by (simp add: enforce_type_def)
  from st' proto show "counters st' (key f) = Some (num_add v (or_one (step opts)))"
    by (simp add: counters_set_counter)
qed









subsection \<open>Reset when the grouping field comes first\<close>

lemma find_distinct_key:
  "f \<in> set fs \<Longrightarrow> distinct (map key fs) \<Longrightarrow> find (\<lambda>g. key g = key f) fs = Some f"
  by (induction fs) (auto simp: image_iff)

lemma reset_field_target:
  assumes "f \<in> set fields'" and "distinct (map key fields')" and "strategy f = INCREMENT"
    and "key f \<noteq> ''__proto__''"
  shows "counters (reset_field fields' st (key f)) (key f) = Some (start_or_1 f)"
  using find_distinct_key [OF assms(1,2)] assms(3,4)
  by (simp add: reset_field_def counters_set_counter)

lemma foldl_reset_target:
  assumes "f \<in> set fields'" and "distinct (map key fields')" and "strategy f = INCREMENT"
    and "key f \<noteq> ''__proto__''"
  shows "key f \<in> set rks \<or> counters st (key f) = Some (start_or_1 f)
   \<Longrightarrow> counters (foldl (reset_field fields') st rks) (key f) = Some (start_or_1 f)"
proof (induction rks arbitrary: st)
  case Nil
  then show ?case by simp
next
  case (Cons r rks)
  show ?case
  proof (cases "r = key f")
    case True
    from reset_field_target [OF assms, of st] True
    have "counters (reset_field fields' st r) (key f) = Some (start_or_1 f)" by simp
    then show ?thesis using Cons.IH [of "reset_field fields' st r"] by simp
  next
    case False
    then have "counters (reset_field fields' st r) (key f) = counters st (key f)"
      by (simp add: counters_reset_field)
    with Cons.prems False show ?thesis using Cons.IH [of "reset_field fields' st r"] by auto
  qed
qed

text \<open>
  Another field than the increment field \<open>f\<close> leaves the counter of \<open>f\<close> at the start
  value once it is there, and puts it there when it is a grouping field at a boundary
  row that lists the key of \<open>f\<close>.
\<close>

lemma gen_field_keeps_start:
  assumes "f \<in> set fields'" and "distinct (map key fields')" and "strategy f = INCREMENT"
    and "key f \<noteq> ''__proto__''"
    and "gen_field (generators rnd) count fields' i st g = Inr (v, st')"
    and "key g \<noteq> key f"
    and "counters st (key f) = Some (start_or_1 f)"
  shows "counters st' (key f) = Some (start_or_1 f)"
proof (cases "groupingConfig (options_or_empty g)")
  case None
  with assms(5) obtain v0 where
    "generators rnd (strategy g) st (key g) (options_or_empty g) = Inr (v0, st')"
    by (auto simp: gen_field_def Let_def split: sum.splits)
  from generators_frame [OF this] assms(6,7) show ?thesis by auto
next
  case (Some gc)
  with assms(5) have "st' = group_resets count fields' i (options_or_empty g) gc st"
    by (auto simp: gen_field_def Let_def)
  then show ?thesis
    using foldl_reset_target [OF assms(1-4), of "resetFields gc" st] assms(7)
    by (simp add: group_resets_def)
qed

lemma gen_field_boundary:
  assumes "f \<in> set fields'" and "distinct (map key fields')" and "strategy f = INCREMENT"
    and "key f \<noteq> ''__proto__''"
    and "gen_field (generators rnd) count fields' i st g = Inr (v, st')"
    and "options g = Some gopts" and "groupingConfig gopts = Some gc"
    and "key f \<in> set (resetFields gc)"
    and "0 < i" and "num_mod (Num (of_nat i)) (group_size count gopts gc) = Num 0"
  shows "counters st' (key f) = Some (start_or_1 f)"
proof -
  from assms(5-7) have "st' = group_resets count fields' i gopts gc st"
    by (auto simp: gen_field_def Let_def options_or_empty_def)
  then show ?thesis
    using foldl_reset_target [OF assms(1-4), of "resetFields gc" st] assms(8-10)
    by (simp add: group_resets_def)
qed

lemma gen_fields_start:
  assumes "f \<in> set fields'" and "distinct (map key fields')" and "strategy f = INCREMENT"
    and "options f = Some opts" and "groupingConfig opts = None"
    and "0 < i"
  shows "gen_fields (generators rnd) count fields' i fs st row = Inr (st', vals, row')
   \<Longrightarrow> distinct (map key fs) \<Longrightarrow> j < length fs \<Longrightarrow> fs ! j = f
   \<Longrightarrow> counters st (key f) = Some (start_or_1 f)
       \<or> (\<exists>g gopts gc. g < j \<and> options (fs ! g) = Some gopts \<and> groupingConfig gopts = Some gc
             \<and> key f \<in> set (resetFields gc)
             \<and> num_mod (Num (of_nat i)) (group_size count gopts gc) = Num 0)
   \<Longrightarrow> vals ! j = PNum (start_or_1 f)"
proof (induction fs arbitrary: st row st' vals row' j)
  case Nil
  then show ?case by simp
next
  case (Cons h fs)
  from Cons.prems(1) obtain val st1 row1 vs where
    step: "gen_field (generators rnd) count fields' i st h = Inr (val, st1)"
    and rest: "gen_fields (generators rnd) count fields' i fs st1 row1 = Inr (st', vs, row')"
    and vals: "vals = val # vs"
    by (auto split: sum.splits prod.splits)
  show ?case
  proof (cases j)
    case 0
    with Cons.prems(4) have h: "h = f" by simp
    from 0 Cons.prems(5) have c: "counters st (key f) = Some (start_or_1 f)" by simp
    from gen_field_increment(1) [OF assms(3-5) step [unfolded h] c] vals 0
    show ?thesis by simp
  next
    case (Suc j')
    with Cons.prems(3,4) have j': "j' < length fs" "fs ! j' = f" by simp_all
    then have "f \<in> set fs" by (auto simp: in_set_conv_nth)
    with Cons.prems(2) have ne: "key h \<noteq> key f" by auto
    from rest j' have "\<exists>s1 s2. gen_field (generators rnd) count fields' i s1 f = Inr (vs ! j', s2)"
      using gen_fields_nth [of "generators rnd" count fields' i fs st1 row1 st' vs row' j']
      by auto
    then obtain s1 s2 where "gen_field (generators rnd) count fields' i s1 f = Inr (vs ! j', s2)"
      by blast
    from gen_field_increment_key [OF assms(3-5) this] have proto: "key f \<noteq> ''__proto__''" .
    have "counters st1 (key f) = Some (start_or_1 f)
       \<or> (\<exists>g gopts gc. g < j' \<and> options (fs ! g) = Some gopts \<and> groupingConfig gopts = Some gc
             \<and> key f \<in> set (resetFields gc)
             \<and> num_mod (Num (of_nat i)) (group_size count gopts gc) = Num 0)"
      using Cons.prems(5)
    proof
      assume "counters st (key f) = Some (start_or_1 f)"
      from gen_field_keeps_start [OF assms(1-3) proto step ne this] show ?thesis by simp
    next
      assume "\<exists>g gopts gc. g < j \<and> options ((h # fs) ! g) = Some gopts
             \<and> groupingConfig gopts = Some gc \<and> key f \<in> set (resetFields gc)
             \<and> num_mod (Num (of_nat i)) (group_size count gopts gc) = Num 0"
      then obtain g gopts gc where g: "g < j" "options ((h # fs) ! g) = Some gopts"
        "groupingConfig gopts = Some gc" "key f \<in> set (resetFields gc)"
        "num_mod (Num (of_nat i)) (group_size count gopts gc) = Num 0"
        by blast
      show ?thesis
      proof (cases g)
        case 0
        with g(2) have "options h = Some gopts" by simp
        from gen_field_boundary [OF assms(1-3) proto step this g(3,4) assms(6) g(5)]
        show ?thesis by simp
      next
        case (Suc g')
        with g Suc \<open>j = Suc j'\<close> have "g' < j'" "options (fs ! g') = Some gopts" by simp_all
        with g(3-5) show ?thesis by blast
      qed
    qed
    from Cons.IH [OF rest _ j' this] Cons.prems(2) vals Suc show ?thesis by simp
  qed
qed

text \<open>
  The reset does its work when the grouping field comes first. In a run that returns,
  over a field list with pairwise distinct keys, let the field at position \<open>g\<close> carry a
  grouping configuration that lists the key of the increment field at a later position
  \<open>j\<close> (which carries no grouping configuration of its own). Then at every boundary row of
  that grouping (\<open>i > 0\<close> and \<open>i % size = 0\<close>) the value of the increment field is its
  configured start (1 when none is configured).
\<close>

theorem reset_when_grouping_first:
  assumes "local_run (generators rnd) count fields' = Inr rows"
    and "i < count" and "0 < i" and "distinct (map key fields')"
    and "g < j" and "j < length fields'"
    and "options (fields' ! g) = Some gopts" and "groupingConfig gopts = Some gc"
    and "key (fields' ! j) \<in> set (resetFields gc)"
    and "num_mod (Num (of_nat i)) (group_size count gopts gc) = Num 0"
    and "strategy (fields' ! j) = INCREMENT" and "options (fields' ! j) = Some opts"
    and "groupingConfig opts = None"
  shows "fst (rows ! i) ! j = PNum (nullish_or (start opts) (Num 1))"
proof -
  let ?f = "fields' ! j"
  from assms(6) have mem: "?f \<in> set fields'" by simp
  from local_run_row(2) [OF assms(1,2)] obtain st r st' flatRow where
    body: "gen_fields (generators rnd) count fields' i fields' st [] =
        Inr (st', fst (rows ! i), flatRow)"
    by blast
  have "fst (rows ! i) ! j = PNum (start_or_1 ?f)"
    using gen_fields_start [OF mem assms(4,11,12,13,3) body assms(4,6) refl] assms(5,7-10)
    by blast
  then show ?thesis using assms(12) by (simp add: start_or_1_def)
qed

theorem reset_when_grouping_first_witness:
  "local_run (generators no_random) 4 [ex_team, ex_seq]
     = Inr [([PStr ''A'', PNum (Num 1)],
             JObj [(''team'', Prim (PStr ''A'')), (''seq'', Prim (PNum (Num 1)))]),
            ([PStr ''A'', PNum (Num 2)],
             JObj [(''team'', Prim (PStr ''A'')), (''seq'', Prim (PNum (Num 2)))]),
            ([PStr ''B'', PNum (Num 1)],
             JObj [(''team'', Prim (PStr ''B'')), (''seq'', Prim (PNum (Num 1)))]),
            ([PStr ''B'', PNum (Num 2)],
             JObj [(''team'', Prim (PStr ''B'')), (''seq'', Prim (PNum (Num 2)))])]
   \<and> fst ([([PStr ''A'', PNum (Num 1)],
             JObj [(''team'', Prim (PStr ''A'')), (''seq'', Prim (PNum (Num 1)))]),
            ([PStr ''A'', PNum (Num 2)],
             JObj [(''team'', Prim (PStr ''A'')), (''seq'', Prim (PNum (Num 2)))]),
            ([PStr ''B'', PNum (Num 1)],
             JObj [(''team'', Prim (PStr ''B'')), (''seq'', Prim (PNum (Num 1)))]),
            ([PStr ''B'', PNum (Num 2)],
             JObj [(''team'', Prim (PStr ''B'')), (''seq'', Prim (PNum (Num 2)))])] ! 2) ! 1
       = PNum (nullish_or (Some (Num 1)) (Num 1))"
proof -
  let ?rows = "[([PStr ''A'', PNum (Num 1)],
             JObj [(''team'', Prim (PStr ''A'')), (''seq'', Prim (PNum (Num 1)))]),
            ([PStr ''A'', PNum (Num 2)],
             JObj [(''team'', Prim (PStr ''A'')), (''seq'', Prim (PNum (Num 2)))]),
            ([PStr ''B'', PNum (Num 1)],
             JObj [(''team'', Prim (PStr ''B'')), (''seq'', Prim (PNum (Num 1)))]),
            ([PStr ''B'', PNum (Num 2)],
             JObj [(''team'', Prim (PStr ''B'')), (''seq'', Prim (PNum (Num 2)))])]"
  let ?gopts = "no_options\<lparr>values_opt := Some [''A'', ''B''],
        groupingConfig := Some \<lparr> group_strategy = Fixed, countPerGroup = Some (Num 2),
          resetFields = [''seq''] \<rparr>\<rparr>"
  let ?gc = "\<lparr> group_strategy = Fixed, countPerGroup = Some (Num 2),
          resetFields = [''seq''] \<rparr>"
  let ?opts = "no_options\<lparr>start := Some (Num 1), step := Some (Num 1)\<rparr>"
  have run: "local_run (generators no_random) 4 [ex_team, ex_seq] = Inr ?rows"
    by code_simp
  have h: "(2::nat) < 4" "(0::nat) < 2" "distinct (map key [ex_team, ex_seq])"
    "(0::nat) < 1" "(1::nat) < length [ex_team, ex_seq]"
    by (simp_all add: ex_team_def ex_seq_def mk_field_def)
  have g: "options ([ex_team, ex_seq] ! 0) = Some ?gopts" "groupingConfig ?gopts = Some ?gc"
    "key ([ex_team, ex_seq] ! 1) \<in> set (resetFields ?gc)"
    by (simp_all add: ex_team_def ex_seq_def mk_field_def no_options_def)
  have b: "num_mod (Num (of_nat 2)) (group_size 4 ?gopts ?gc) = Num 0"
    by (simp add: group_size_def trunc_def)
  have f: "strategy ([ex_team, ex_seq] ! 1) = INCREMENT"
    "options ([ex_team, ex_seq] ! 1) = Some ?opts" "groupingConfig ?opts = None"
    "start ?opts = Some (Num 1)"
    by (simp_all add: ex_seq_def mk_field_def no_options_def)
  from reset_when_grouping_first [OF run h(1,2,3,4,5) g(1,2,3) b f(1,2,3)] f(4)
  have "fst (?rows ! 2) ! 1 = PNum (nullish_or (Some (Num 1)) (Num 1))" by simp
  with run show ?thesis by blast
qed

section \<open>Results about the path codec\<close>

subsection \<open>Numeric segments\<close>

lemma digit_not_space: "is_digit c \<Longrightarrow> \<not> is_space c"
  by (auto simp: is_digit_def is_space_def Let_def)

lemma dropWhile_hd: "s \<noteq> [] \<Longrightarrow> \<not> P (hd s) \<Longrightarrow> dropWhile P s = s"
  by (cases s) simp_all

lemma trim_digits:
  assumes "list_all is_digit s"
  shows "trim s = s"
proof (cases "s = []")
  case True
  then show ?thesis by (simp add: trim_def)
next
  case False
  then have "hd s \<in> set s" "last s \<in> set s" by simp_all
  with assms have h: "\<not> is_space (hd s)" "\<not> is_space (last s)"
    by (simp_all add: digit_not_space list_all_iff)
  from False h(1) have 1: "dropWhile is_space s = s" by (rule dropWhile_hd)
  from False have "rev s \<noteq> []" "hd (rev s) = last s" by (simp_all add: hd_rev)
  with h(2) have "dropWhile is_space (rev s) = rev s" by (simp add: dropWhile_hd)
  with 1 show ?thesis by (simp add: trim_def)
qed

text \<open>A string of digits reads as a number.\<close>

lemma unsigned_decimal_digits:
  assumes "list_all is_digit s" and "s \<noteq> []"
  shows "unsigned_decimal s = Num (of_nat (digits_val 10 s))"
proof -
  have "\<not> is_digit CHR ''I''" by (simp add: is_digit_def)
  with assms have inf: "s \<noteq> ''Infinity''" by auto
  have tw: "takeWhile is_digit s = s" "dropWhile is_digit s = []"
    using assms(1) by (simp_all add: list_all_iff)
  show ?thesis
    unfolding unsigned_decimal_def Let_def tw
    using inf assms(2) by (simp add: pow10_def digits_val_def)
qed

lemma digits_numeric:
  assumes "list_all is_digit s"
  shows "\<not> isNaN (string_to_number s)"
proof (cases s)
  case Nil
  then show ?thesis by (simp add: string_to_number_def trim_def)
next
  case (Cons c cs)
  with assms have c: "is_digit c" and cs: "list_all is_digit cs" by simp_all
  have nd: "\<not> is_digit CHR ''x''" "\<not> is_digit CHR ''X''" "\<not> is_digit CHR ''o''"
    "\<not> is_digit CHR ''O''" "\<not> is_digit CHR ''b''" "\<not> is_digit CHR ''B''"
    "\<not> is_digit CHR ''-''" "\<not> is_digit CHR ''+''"
    by (simp_all add: is_digit_def)
  have sign: "c \<noteq> CHR ''-''" "c \<noteq> CHR ''+''" using c nd by auto
  have ud: "unsigned_decimal (c # cs) = Num (of_nat (digits_val 10 (c # cs)))"
    using unsigned_decimal_digits [of "c # cs"] assms Cons by simp
  have tr: "trim (c # cs) = c # cs" using trim_digits [OF assms] Cons by simp
  have "string_to_number (c # cs) = unsigned_decimal (c # cs)"
  proof (cases cs)
    case Nil
    with tr sign show ?thesis by (simp add: string_to_number_def)
  next
    case (Cons d ds)
    with cs have "is_digit d" by simp
    with nd have "d \<noteq> CHR ''x''" "d \<noteq> CHR ''X''" "d \<noteq> CHR ''o''" "d \<noteq> CHR ''O''"
      "d \<noteq> CHR ''b''" "d \<noteq> CHR ''B''" by auto
    with tr sign Cons show ?thesis by (simp add: string_to_number_def)
  qed
  with ud Cons show ?thesis by simp
qed

lemma array_index_numeric: "array_index k = Some n \<Longrightarrow> \<not> isNaN (string_to_number k)"
  by (rule digits_numeric) (simp add: array_index_def split: if_splits)

lemma plain_key_no_index: "plain_key k \<Longrightarrow> array_index k = None"
  using array_index_numeric [of k] by (cases "array_index k") (auto simp: plain_key_def)

lemma plain_key_not_proto: "plain_key k \<Longrightarrow> k \<noteq> ''__proto__''"
  by (auto simp: plain_key_def object_proto_names_def)

lemma zero_numeric: "string_to_number ''0'' = Num 0"
  by code_simp

lemma array_index_zero: "array_index ''0'' = Some 0"
  by (simp add: array_index_def is_digit_def digits_val_def digit_val_def)

subsection \<open>Slots\<close>

lemma own_set_fresh:
  "k \<notin> fst ` set kvs \<Longrightarrow> array_index k = None \<Longrightarrow> own_set k v kvs = kvs @ [(k, v)]"
  by (simp add: own_set_def)

lemma own_set_last:
  "k \<notin> fst ` set kvs \<Longrightarrow> own_set k v' (kvs @ [(k, v)]) = kvs @ [(k, v')]"
proof -
  assume h: "k \<notin> fst ` set kvs"
  then have "map (\<lambda>(k', v''). if k' = k then (k', v') else (k', v'')) kvs = kvs"
    by (induction kvs) auto
  then show ?thesis by (simp add: own_set_def)
qed

lemma map_of_last: "k \<notin> fst ` set kvs \<Longrightarrow> map_of (kvs @ [(k, v)]) k = Some v"
  by (induction kvs) auto

lemma slot_object:
  assumes "plain_key k" and "k \<notin> fst ` set done"
  shows "slot (JObj done) k (\<lambda>ch. JObj (done @ [(k, ch)]))"
proof -
  from assms(2) have none: "map_of done k = None" by (simp add: map_of_eq_None_iff)
  from assms(1) have np: "k \<notin> set object_proto_names" "k \<noteq> ''__proto__''"
    by (simp_all add: plain_key_def plain_key_not_proto)
  show ?thesis
    unfolding slot_def
    using none np own_set_fresh [OF assms(2) plain_key_no_index [OF assms(1)]]
      own_set_last [OF assms(2)] map_of_last [OF assms(2)]
    by simp
qed

lemma slot_array: "slot (JArr []) ''0'' (\<lambda>ch. JArr [ch])"
  unfolding slot_def
  by (simp add: array_index_zero zero_numeric write_index_def)

lemma write_prop_container: "write_prop c k v = Inr c' \<Longrightarrow> is_container c'"
  by (cases c) (auto simp: write_index_def split: if_splits option.splits)

lemma assign_last_container: "assign_last c k v = Inr c' \<Longrightarrow> is_container c'"
  by (cases c) (auto simp: write_index_def split: if_splits option.splits)

lemma set_path_container: "set_path p v c = Inr c' \<Longrightarrow> is_container c'"
proof (cases p)
  case Nil
  assume "set_path p v c = Inr c'"
  with Nil show ?thesis by simp
next
  case (Cons k rest)
  assume h: "set_path p v c = Inr c'"
  show ?thesis
  proof (cases rest)
    case Nil
    with Cons h show ?thesis by (simp add: assign_last_container)
  next
    case (Cons q rest')
    with \<open>p = k # rest\<close> h show ?thesis
      by (auto simp: Let_def write_prop_container split: sum.splits if_splits)
  qed
qed

lemma container_defined: "is_container ch \<Longrightarrow> ch \<noteq> Prim PUndefined"
  by auto

text \<open>A step of the loop through a slot that already holds a container.\<close>

lemma slot_step:
  assumes "slot c k mk" and "is_container ch"
  shows "set_path (k # q # rest) v (mk ch) =
     (case set_path (q # rest) v ch of Inl e \<Rightarrow> Inl e | Inr ch' \<Rightarrow> Inr (mk ch'))"
  using assms container_defined [OF assms(2)]
  by (simp add: slot_def Let_def split: sum.splits)

text \<open>The first step through an empty slot creates the container that the next segment asks for.\<close>

lemma slot_create:
  assumes "slot c k mk"
  shows "set_path (k # q # rest) v c =
     (case set_path (q # rest) v
             (if \<not> isNaN (string_to_number q) then JArr [] else JObj []) of
        Inl e \<Rightarrow> Inl e | Inr ch' \<Rightarrow> Inr (mk ch'))"
  using assms by (simp add: slot_def Let_def split: sum.splits)

lemma build_append:
  "build (L1 @ L2) c = (case build L1 c of Inl e \<Rightarrow> Inl e | Inr c' \<Rightarrow> build L2 c')"
  by (induction L1 arbitrary: c) (auto split: sum.splits)

lemma build_slot:
  assumes "slot c k mk"
  shows "is_container ch \<Longrightarrow> \<forall>(p, w) \<in> set L. p \<noteq> []
   \<Longrightarrow> build (map (\<lambda>(p, w). (k # p, w)) L) (mk ch) =
       (case build L ch of Inl e \<Rightarrow> Inl e | Inr ch' \<Rightarrow> Inr (mk ch'))"
proof (induction L arbitrary: ch)
  case Nil
  then show ?case by simp
next
  case (Cons pw L)
  obtain p w where pw: "pw = (p, w)" by (cases pw)
  with Cons.prems(2) obtain q rest where p: "p = q # rest" by (cases p) auto
  show ?case
  proof (cases "set_path (q # rest) (Prim w) ch")
    case (Inl e)
    with pw p slot_step [OF assms Cons.prems(1), of q rest "Prim w"] show ?thesis by simp
  next
    case (Inr ch')
    then have "is_container ch'" by (rule set_path_container)
    from Cons.IH [OF this] Cons.prems(2) Inr pw p
      slot_step [OF assms Cons.prems(1), of q rest "Prim w"]
    show ?thesis by simp
  qed
qed

lemma build_slot_create:
  assumes "slot c k mk" and "\<forall>(p, w) \<in> set L. p \<noteq> []"
  shows "build (map (\<lambda>(p, w). (k # p, w)) ((q # rest, w) # L)) c =
       (case build ((q # rest, w) # L)
               (if \<not> isNaN (string_to_number q) then JArr [] else JObj []) of
          Inl e \<Rightarrow> Inl e | Inr ch' \<Rightarrow> Inr (mk ch'))"
proof -
  let ?fresh = "if \<not> isNaN (string_to_number q) then JArr [] else JObj []"
  show ?thesis
  proof (cases "set_path (q # rest) (Prim w) ?fresh")
    case (Inl e)
    with slot_create [OF assms(1), of q rest "Prim w"] show ?thesis by simp
  next
    case (Inr ch')
    then have "is_container ch'" by (rule set_path_container)
    from build_slot [OF assms(1) this assms(2)] Inr
      slot_create [OF assms(1), of q rest "Prim w"]
    show ?thesis by simp
  qed
qed

subsection \<open>The leaves of a codec value\<close>

lemma map_fst_prepend:
  "map fst (map (\<lambda>(p, w). (s # p, w)) L) = map ((#) s) (map fst L)"
  by (induction L) auto

lemma distinct_prepend:
  "distinct (map fst L) \<Longrightarrow> distinct (map fst (map (\<lambda>(p, w). (s # p, w)) L))"
proof -
  assume "distinct (map fst L)"
  then have "distinct (map ((#) s) (map fst L))"
    by (subst distinct_map) (simp add: inj_on_def)
  then show ?thesis by (simp only: map_fst_prepend)
qed

lemma leaves_facts:
  "codec_value v \<Longrightarrow> leaves v \<noteq> [] \<and> distinct (map fst (leaves v))
      \<and> (\<forall>(p, w) \<in> set (leaves v). \<forall>s \<in> set p. CHR ''.'' \<notin> set s)"
  "codec_props kvs \<Longrightarrow>
      (kvs \<noteq> [] \<longrightarrow> leaves_props kvs \<noteq> []) \<and> distinct (map fst (leaves_props kvs))
      \<and> (\<forall>(p, w) \<in> set (leaves_props kvs).
            p \<noteq> [] \<and> hd p \<in> fst ` set kvs \<and> plain_key (hd p) \<and> (\<forall>s \<in> set p. CHR ''.'' \<notin> set s))"
proof (induction v and kvs rule: codec_value_codec_props.induct)
  case (1 p)
  then show ?case by simp
next
  case 2
  then show ?case by simp
next
  case (3 x)
  from "3.prems" have x: "codec_value x" by simp
  note ix = "3.IH" [OF x]
  have "distinct (map fst (leaves (JArr [x])))"
    using ix distinct_prepend [of "leaves x" "''0''"] by simp
  moreover have "\<forall>(p, w) \<in> set (leaves (JArr [x])). \<forall>s \<in> set p. CHR ''.'' \<notin> set s"
    using ix by fastforce
  ultimately show ?case using ix by simp
next
  case (4 x y zs)
  then show ?case by simp
next
  case (5 kvs)
  then show ?case by auto
next
  case 6
  then show ?case by simp
next
  case (7 k v rest)
  from "7.prems" have k: "plain_key k" "k \<notin> fst ` set rest"
    and v: "codec_value v" and rest: "codec_props rest" by simp_all
  note iv = "7.IH"(1) [OF v] and ir = "7.IH"(2) [OF rest]
  let ?A = "map (\<lambda>(p, w). (k # p, w)) (leaves v)"
  have dA: "distinct (map fst ?A)"
    using iv distinct_prepend [of "leaves v" k] by simp
  have disj: "set (map fst ?A) \<inter> set (map fst (leaves_props rest)) = {}"
  proof (rule ccontr)
    assume "set (map fst ?A) \<inter> set (map fst (leaves_props rest)) \<noteq> {}"
    then obtain p where pa: "p \<in> set (map fst ?A)" and pr: "p \<in> set (map fst (leaves_props rest))"
      by blast
    from pa have "hd p = k" by auto
    moreover from pr ir have "hd p \<in> fst ` set rest" by fastforce
    ultimately show False using k(2) by simp
  qed
  have dot: "CHR ''.'' \<notin> set k" using k(1) by (simp add: plain_key_def)
  have A: "\<forall>(p, w) \<in> set ?A. p \<noteq> [] \<and> hd p \<in> fst ` set ((k, v) # rest) \<and> plain_key (hd p)
      \<and> (\<forall>s \<in> set p. CHR ''.'' \<notin> set s)"
    using iv k(1) dot by fastforce
  have R: "\<forall>(p, w) \<in> set (leaves_props rest). p \<noteq> [] \<and> hd p \<in> fst ` set ((k, v) # rest)
      \<and> plain_key (hd p) \<and> (\<forall>s \<in> set p. CHR ''.'' \<notin> set s)"
    using ir by fastforce
  from iv have "?A \<noteq> []" by simp
  with dA disj ir A R show ?case by (auto simp: distinct_map)
qed

lemma leaves_props_head:
  assumes "codec_props ((k, v) # rest)"
  shows "\<exists>p w L. leaves_props ((k, v) # rest) = (k # p, w) # L"
proof -
  from assms have "codec_value v" by simp
  from leaves_facts(1) [OF this] obtain a L' where "leaves v = a # L'" by (cases "leaves v") auto
  then show ?thesis by (cases a) auto
qed

subsection \<open>Re-nesting the leaves\<close>

text \<open>
  Filling a slot with the leaves of a codec value puts the value into the slot; filling
  an object with the leaves of a list of properties appends the properties.
\<close>

lemma build_leaves:
  "codec_value v \<Longrightarrow> slot c k mk
     \<Longrightarrow> build (map (\<lambda>(p, w). (k # p, w)) (leaves v)) c = Inr (mk v)"
  "codec_props kvs \<Longrightarrow> fst ` set kvs \<inter> fst ` set seen = {}
     \<Longrightarrow> build (leaves_props kvs) (JObj seen) = Inr (JObj (seen @ kvs))"
proof (induction v and kvs arbitrary: c k mk and seen rule: codec_value_codec_props.induct)
  case (1 p)
  then show ?case by (simp add: slot_def)
next
  case 2
  then show ?case by simp
next
  case (3 x)
  from "3.prems"(1) have x: "codec_value x" by simp
  from leaves_facts(1) [OF x] obtain a L where L: "leaves x = a # L" by (cases "leaves x") auto
  obtain p w where a: "a = (p, w)" by (cases a)
  let ?M = "map (\<lambda>(p, w). (''0'' # p, w)) L"
  have ne: "\<forall>(p, w) \<in> set ?M. p \<noteq> []" by auto
  have "build (map (\<lambda>(p, w). (k # p, w)) (leaves (JArr [x]))) c
      = build (map (\<lambda>(p, w). (k # p, w)) ((''0'' # p, w) # ?M)) c"
    using L a by simp
  also have "\<dots> = (case build ((''0'' # p, w) # ?M) (JArr []) of
                      Inl e \<Rightarrow> Inl e | Inr ch' \<Rightarrow> Inr (mk ch'))"
    using build_slot_create [OF "3.prems"(2) ne, of "''0''" p w] by (simp add: zero_numeric)
  also have "(''0'' # p, w) # ?M = map (\<lambda>(p, w). (''0'' # p, w)) (leaves x)"
    using L a by simp
  also have "build (map (\<lambda>(p, w). (''0'' # p, w)) (leaves x)) (JArr []) = Inr (JArr [x])"
    using "3.IH" [OF x slot_array] .
  finally show ?case by simp
next
  case (4 x y zs)
  then show ?case by simp
next
  case (5 kvs)
  from "5.prems"(1) have ne: "kvs \<noteq> []" and kvs: "codec_props kvs" by simp_all
  from ne obtain k1 v1 rest where kv: "kvs = (k1, v1) # rest" by (cases kvs) auto
  from leaves_props_head [OF kvs [unfolded kv]] obtain p w L where
    L: "leaves_props kvs = (k1 # p, w) # L" unfolding kv by blast
  from kvs kv have "plain_key k1" by simp
  then have nan: "isNaN (string_to_number k1)" by (simp add: plain_key_def)
  from leaves_facts(2) [OF kvs] L have nel: "\<forall>(p, w) \<in> set L. p \<noteq> []" by auto
  have "build (map (\<lambda>(p, w). (k # p, w)) (leaves (JObj kvs))) c
      = build (map (\<lambda>(p, w). (k # p, w)) ((k1 # p, w) # L)) c"
    using L by simp
  also have "\<dots> = (case build ((k1 # p, w) # L) (JObj []) of
                      Inl e \<Rightarrow> Inl e | Inr ch' \<Rightarrow> Inr (mk ch'))"
    using build_slot_create [OF "5.prems"(2) nel, of k1 p w] nan by simp
  also have "(k1 # p, w) # L = leaves_props kvs" using L by simp
  also have "build (leaves_props kvs) (JObj []) = Inr (JObj ([] @ kvs))"
    using "5.IH" [OF kvs, of "[]"] by simp
  finally show ?case by simp
next
  case 6
  then show ?case by simp
next
  case (7 k' v rest)
  from "7.prems"(1) have k': "plain_key k'" "k' \<notin> fst ` set rest"
    and v: "codec_value v" and rest: "codec_props rest" by simp_all
  from "7.prems"(2) have fresh: "k' \<notin> fst ` set seen" by auto
  have 1: "build (map (\<lambda>(p, w). (k' # p, w)) (leaves v)) (JObj seen)
      = Inr (JObj (seen @ [(k', v)]))"
    using "7.IH"(1) [OF v slot_object [OF k'(1) fresh]] .
  from "7.prems"(2) k'(2) have "fst ` set rest \<inter> fst ` set (seen @ [(k', v)]) = {}" by auto
  from "7.IH"(2) [OF rest this] 1 show ?case
    by (simp add: build_append)
qed

subsection \<open>Flattening a codec value\<close>

lemma plain_flat_append1: "plain_flat (A @ B) \<Longrightarrow> plain_flat A"
  by (auto simp: plain_flat_def)

lemma plain_flat_append2: "plain_flat (A @ B) \<Longrightarrow> plain_flat B"
  by (auto simp: plain_flat_def)

lemma flat_set_append: "plain_flat (r @ [(k, v)]) \<Longrightarrow> flat_set k v r = r @ [(k, v)]"
  by (auto simp: plain_flat_def flat_set_def own_set_def)

lemma assign_all_append: "plain_flat (r @ S) \<Longrightarrow> assign_all r S = r @ S"
proof (induction S arbitrary: r)
  case Nil
  then show ?case by (simp add: assign_all_def)
next
  case (Cons a S)
  obtain k v where a: "a = (k, v)" by (cases a)
  from Cons.prems have p: "plain_flat ((r @ [(k, v)]) @ S)" by (simp add: a)
  from plain_flat_append1 [OF p] have "flat_set k v r = r @ [(k, v)]" by (rule flat_set_append)
  with Cons.IH [OF p] show ?case by (simp add: assign_all_def a)
qed

lemma join_path_Cons: "join_path (s # p) = (if p = [] then s else s @ ''.'' @ join_path p)"
  by (cases p) simp_all

lemma relp_prepend: "relp prefix (map (\<lambda>(p, w). (k # p, w)) L) = rel (new_key prefix k) L"
  by (induction L) (auto simp: relp_def rel_def key_under_def new_key_def join_path_Cons)

lemma rel_prepend: "rel newKey (map (\<lambda>(p, w). (s # p, w)) L) = rel (newKey @ ''.'' @ s) L"
  by (induction L) (auto simp: rel_def key_under_def join_path_Cons)

lemma rel_relp:
  "newKey \<noteq> [] \<Longrightarrow> \<forall>(p, w) \<in> set L. p \<noteq> [] \<Longrightarrow> rel newKey L = relp newKey L"
  by (induction L) (auto simp: rel_def relp_def key_under_def new_key_def)

lemma relp_append: "relp prefix (A @ B) = relp prefix A @ relp prefix B"
  by (simp add: relp_def)

lemma nat_to_string_0: "nat_to_string 0 = ''0''"
  by code_simp

lemma plain_key_nonempty: "plain_key k \<Longrightarrow> k \<noteq> []"
  by (auto simp: plain_key_def string_to_number_def trim_def)

lemma new_key_nonempty: "k \<noteq> [] \<Longrightarrow> new_key prefix k \<noteq> []"
  by (simp add: new_key_def)

lemma leaves_props_nonempty_paths:
  "codec_props kvs \<Longrightarrow> \<forall>(p, w) \<in> set (leaves_props kvs). p \<noteq> []"
  using leaves_facts(2) [of kvs] by fastforce

lemma codec_array: "codec_value (JArr xs) \<Longrightarrow> \<exists>y. xs = [y] \<and> codec_value y"
proof (cases xs)
  case Nil
  assume "codec_value (JArr xs)"
  with Nil show ?thesis by simp
next
  case (Cons y ys)
  assume "codec_value (JArr xs)"
  with Cons show ?thesis by (cases ys) simp_all
qed

text \<open>
  On a codec value no two leaves collide, so every assignment of \<open>flattenObject\<close> appends:
  the result lists the leaves in order, each under its dotted path.
\<close>

lemma flatten_leaves:
  "codec_props kvs \<Longrightarrow> plain_flat (result @ relp prefix (leaves_props kvs))
     \<Longrightarrow> flatten_props kvs prefix result = result @ relp prefix (leaves_props kvs)"
  "(\<exists>y. xs = [y] \<and> codec_value y) \<Longrightarrow> i = 0 \<Longrightarrow> prefix \<noteq> []
     \<Longrightarrow> plain_flat (result @ rel (prefix @ ''.0'') (leaves (hd xs)))
     \<Longrightarrow> flatten_elems xs i prefix result = result @ rel (prefix @ ''.0'') (leaves (hd xs))"
  "codec_value v \<Longrightarrow> newKey \<noteq> [] \<Longrightarrow> plain_flat (result @ rel newKey (leaves v))
     \<Longrightarrow> flatten_entry v newKey result = result @ rel newKey (leaves v)"
proof (induction kvs prefix result and xs i prefix result and v newKey result
    rule: flatten_props_flatten_elems_flatten_entry.induct)
  case (1 prefix result)
  then show ?case by (simp add: relp_def)
next
  case (2 k v rest prefix result)
  from "2.prems"(1) have k: "plain_key k" and v: "codec_value v" and rest: "codec_props rest"
    by simp_all
  have nk: "new_key prefix k \<noteq> []" using plain_key_nonempty [OF k] by (rule new_key_nonempty)
  have split: "relp prefix (leaves_props ((k, v) # rest))
      = rel (new_key prefix k) (leaves v) @ relp prefix (leaves_props rest)"
    by (simp add: relp_append relp_prepend)
  with "2.prems"(2) have pf: "plain_flat ((result @ rel (new_key prefix k) (leaves v))
      @ relp prefix (leaves_props rest))" by simp
  from "2.IH"(1) [OF v nk plain_flat_append1 [OF pf]]
  have e: "flatten_entry v (new_key prefix k) result = result @ rel (new_key prefix k) (leaves v)" .
  from "2.IH"(2) [OF rest] pf e split show ?case by simp
next
  case (3 i prefix result)
  then show ?case by simp
next
  case (4 v rest i prefix result)
  from "4.prems"(1) have r: "rest = []" and v: "codec_value v" by auto
  from "4.prems"(2,3) have nk: "new_key prefix (nat_to_string i) = prefix @ ''.0''"
    by (simp add: new_key_def nat_to_string_0)
  then have "new_key prefix (nat_to_string i) \<noteq> []" by simp
  from "4.IH"(1) [OF v this] "4.prems"(4) nk r show ?case by simp
next
  case (5 kvs newKey result)
  from "5.prems"(1) have kvs: "codec_props kvs" by simp
  have eq: "rel newKey (leaves (JObj kvs)) = relp newKey (leaves_props kvs)"
    using rel_relp [OF "5.prems"(2) leaves_props_nonempty_paths [OF kvs]] by simp
  with "5.prems"(3) have pf: "plain_flat (result @ relp newKey (leaves_props kvs))" by simp
  from plain_flat_append2 [OF pf] have "plain_flat ([] @ relp newKey (leaves_props kvs))" by simp
  from "5.IH" [OF kvs this] have "flatten_props kvs newKey [] = relp newKey (leaves_props kvs)"
    by simp
  with assign_all_append [OF pf] eq show ?case by simp
next
  case (6 newKey result)
  then show ?case by simp
next
  case (7 kvs others newKey result)
  from "7.prems"(1) have o: "others = []" and kvs: "codec_props kvs"
    by (cases others; simp)+
  have ne: "newKey @ ''.0'' \<noteq> []" by simp
  have eq: "rel newKey (leaves (JArr (JObj kvs # others)))
      = relp (newKey @ ''.0'') (leaves_props kvs)"
    using rel_relp [OF ne leaves_props_nonempty_paths [OF kvs]] by (simp add: rel_prepend)
  with "7.prems"(3) have pf: "plain_flat (result @ relp (newKey @ ''.0'') (leaves_props kvs))"
    by simp
  from plain_flat_append2 [OF pf]
  have "plain_flat ([] @ relp (newKey @ ''.0'') (leaves_props kvs))" by simp
  from "7.IH" [OF kvs this]
  have "flatten_props kvs (newKey @ ''.0'') [] = relp (newKey @ ''.0'') (leaves_props kvs)"
    by simp
  with assign_all_append [OF pf] eq show ?case by simp
next
  case (8 xs others newKey result)
  from "8.prems"(1) have o: "others = []" and "codec_value (JArr xs)"
    by (cases others; simp)+
  from codec_array [OF this(2)] obtain y where xs: "xs = [y]" and y: "codec_value y"
    by blast
  have ne: "newKey @ ''.0'' \<noteq> []" by simp
  have "rel newKey (map (\<lambda>(p, w). (''0'' # p, w)) (map (\<lambda>(p, w). (''0'' # p, w)) (leaves y)))
      = rel ((newKey @ ''.0'') @ ''.0'') (leaves y)"
    unfolding rel_prepend by simp
  then have eq: "rel newKey (leaves (JArr (JArr xs # others)))
      = rel ((newKey @ ''.0'') @ ''.0'') (leaves y)"
    using xs by (simp del: map_map)
  with "8.prems"(3) have pf: "plain_flat (result @ rel ((newKey @ ''.0'') @ ''.0'') (leaves y))"
    by simp
  from plain_flat_append2 [OF pf] xs
  have "plain_flat ([] @ rel ((newKey @ ''.0'') @ ''.0'') (leaves (hd xs)))" by simp
  from "8.IH" [OF _ refl ne this] xs y
  have "flatten_elems xs 0 (newKey @ ''.0'') [] = rel ((newKey @ ''.0'') @ ''.0'') (leaves y)"
    by simp
  with assign_all_append [OF pf] eq show ?case by simp
next
  case (9 p others newKey result)
  from "9.prems"(1) have o: "others = []" by (cases others) simp_all
  with "9.prems"(3) have "plain_flat (result @ [(newKey @ ''.0'', p)])"
    by (simp add: rel_def key_under_def)
  from flat_set_append [OF this] o show ?case by (simp add: rel_def key_under_def)
next
  case (10 p newKey result)
  from "10.prems"(3) have "plain_flat (result @ [(newKey, p)])"
    by (simp add: rel_def key_under_def)
  from flat_set_append [OF this] show ?case by (simp add: rel_def key_under_def)
qed

subsection \<open>Splitting a dotted key\<close>

lemma split_dot_nonempty: "split_dot s \<noteq> []"
  by (induction s) (auto split: list.splits)

lemma split_dot_plain: "CHR ''.'' \<notin> set s \<Longrightarrow> split_dot s = [s]"
  by (induction s) auto

lemma split_dot_append:
  "CHR ''.'' \<notin> set s \<Longrightarrow> split_dot (s @ CHR ''.'' # t) = s # split_dot t"
  by (induction s) (auto split: list.splits simp: split_dot_nonempty)

lemma split_join:
  "p \<noteq> [] \<Longrightarrow> \<forall>s \<in> set p. CHR ''.'' \<notin> set s \<Longrightarrow> split_dot (join_path p) = p"
proof (induction p rule: join_path.induct)
  case 1
  then show ?case by simp
next
  case (2 s)
  then show ?case by (simp add: split_dot_plain)
next
  case (3 s t rest)
  then show ?case by (simp add: split_dot_append)
qed

lemma unflatten_from_build:
  "\<forall>(p, w) \<in> set L. p \<noteq> [] \<and> (\<forall>s \<in> set p. CHR ''.'' \<notin> set s)
   \<Longrightarrow> unflatten_from (map (\<lambda>(p, w). (join_path p, w)) L) row = build L row"
proof (induction L arbitrary: row)
  case Nil
  then show ?case by simp
next
  case (Cons a L)
  obtain p w where a: "a = (p, w)" by (cases a)
  with Cons.prems have "split_dot (join_path p) = p" by (simp add: split_join)
  with Cons.IH Cons.prems a show ?case by (auto split: sum.splits)
qed

subsection \<open>The keys of a flattened codec record\<close>

lemma join_path_plain_head:
  assumes "plain_key k"
  shows "join_path (k # rest) \<noteq> ''__proto__''" and "array_index (join_path (k # rest)) = None"
proof -
  have nd: "\<not> is_digit CHR ''.''" by (simp add: is_digit_def)
  show "join_path (k # rest) \<noteq> ''__proto__''"
  proof (cases rest)
    case Nil
    then show ?thesis using plain_key_not_proto [OF assms] by simp
  next
    case (Cons t ts)
    have "CHR ''.'' \<in> set (join_path (k # rest))" using Cons by simp
    moreover have "CHR ''.'' \<notin> set ''__proto__''" by simp
    ultimately show ?thesis by metis
  qed
  show "array_index (join_path (k # rest)) = None"
  proof (cases rest)
    case Nil
    then show ?thesis using plain_key_no_index [OF assms] by simp
  next
    case (Cons t ts)
    have "CHR ''.'' \<in> set (join_path (k # rest))" using Cons by simp
    with nd have "\<not> list_all is_digit (join_path (k # rest))"
      by (auto simp: list_all_iff)
    then show ?thesis by (simp add: array_index_def)
  qed
qed

lemma map_fst_join:
  "map fst (map (\<lambda>(p, w). (join_path p, w)) L) = map join_path (map fst L)"
  by (induction L) auto

lemma flat_keys_plain:
  assumes "codec_props kvs"
  shows "plain_flat (map (\<lambda>(p, w). (join_path p, w)) (leaves_props kvs))"
proof -
  let ?L = "leaves_props kvs"
  note f = leaves_facts(2) [OF assms]
  have good: "\<forall>(p, w) \<in> set ?L. p \<noteq> [] \<and> plain_key (hd p) \<and> (\<forall>s \<in> set p. CHR ''.'' \<notin> set s)"
    using f by fastforce
  have inj: "inj_on join_path (set (map fst ?L))"
  proof (rule inj_on_inverseI [where g = split_dot])
    fix p assume "p \<in> set (map fst ?L)"
    with good show "split_dot (join_path p) = p" by (auto simp: split_join)
  qed
  have "distinct (map join_path (map fst ?L))"
  proof (subst distinct_map, intro conjI)
    show "distinct (map fst ?L)" using f by blast
    show "inj_on join_path (set (map fst ?L))" by (rule inj)
  qed
  then have d: "distinct (map fst (map (\<lambda>(p, w). (join_path p, w)) ?L))"
    by (simp only: map_fst_join)
  have "\<forall>k \<in> fst ` set (map (\<lambda>(p, w). (join_path p, w)) ?L).
      k \<noteq> ''__proto__'' \<and> array_index k = None"
  proof
    fix k assume "k \<in> fst ` set (map (\<lambda>(p, w). (join_path p, w)) ?L)"
    then obtain p w where pw: "(p, w) \<in> set ?L" and k: "k = join_path p" by auto
    with good obtain h rest where "p = h # rest" "plain_key h" by (cases p) auto
    with k join_path_plain_head [of h rest] show "k \<noteq> ''__proto__'' \<and> array_index k = None"
      by simp
  qed
  with d show ?thesis unfolding plain_flat_def by blast
qed

lemma relp_root: "relp [] L = map (\<lambda>(p, w). (join_path p, w)) L"
  by (simp add: relp_def new_key_def)

subsection \<open>Round trip\<close>

text \<open>
  Claim C1, as stated, fails: the record \<open>{"tags": []}\<close>, whose only array has no element,
  flattens to the empty flat object, which re-nests to \<open>{}\<close>. Records without any array
  fail as well: an empty nested object is lost in the same way, a key that contains a
  dot comes back as two nested keys, and a numeric key below the root comes back as an
  index of an array.
\<close>

theorem round_trip_counterexample:
  "flattenObject ex_empty_array '''' = []
   \<and> unflatten (flattenObject ex_empty_array '''') = Inr (JObj [])
   \<and> JObj [] \<noteq> ex_empty_array
   \<and> unflatten (flattenObject ex_empty_object '''') = Inr (JObj [])
   \<and> JObj [] \<noteq> ex_empty_object
   \<and> unflatten (flattenObject ex_dotted_key '''')
       = Inr (JObj [(''a'', JObj [(''b'', Prim (PNum (Num 1)))])])
   \<and> JObj [(''a'', JObj [(''b'', Prim (PNum (Num 1)))])] \<noteq> ex_dotted_key
   \<and> unflatten (flattenObject ex_numeric_key '''')
       = Inr (JObj [(''m'', JArr [Prim (PNum (Num 1))])])
   \<and> JObj [(''m'', JArr [Prim (PNum (Num 1))])] \<noteq> ex_numeric_key"
proof -
  have flat: "flattenObject ex_empty_object '''' = []"
    "flattenObject ex_dotted_key '''' = [(''a.b'', PNum (Num 1))]"
    "flattenObject ex_numeric_key '''' = [(''m.0'', PNum (Num 1))]"
    by code_simp+
  have num: "string_to_number ''0'' = Num 0" "isNaN (string_to_number ''b'')"
    by code_simp+
  have parts: "split_dot ''a.b'' = [''a'', ''b'']" "split_dot ''m.0'' = [''m'', ''0'']"
    by code_simp+
  have idx: "array_index ''a'' = None" "array_index ''b'' = None" "array_index ''m'' = None"
    by (simp_all add: array_index_def is_digit_def)
  have 1: "flattenObject ex_empty_array '''' = []
     \<and> unflatten (flattenObject ex_empty_array '''') = Inr (JObj [])
     \<and> JObj [] \<noteq> ex_empty_array"
    by (simp add: ex_empty_array_def unflatten_def)
  have 2: "unflatten (flattenObject ex_empty_object '''') = Inr (JObj [])
     \<and> JObj [] \<noteq> ex_empty_object"
    by (simp add: flat unflatten_def) (simp add: ex_empty_object_def)
  have 3: "unflatten (flattenObject ex_dotted_key '''')
       = Inr (JObj [(''a'', JObj [(''b'', Prim (PNum (Num 1)))])])
     \<and> JObj [(''a'', JObj [(''b'', Prim (PNum (Num 1)))])] \<noteq> ex_dotted_key"
    by (simp add: flat unflatten_def parts num idx own_set_def object_proto_names_def)
       (simp add: ex_dotted_key_def)
  have 4: "unflatten (flattenObject ex_numeric_key '''')
       = Inr (JObj [(''m'', JArr [Prim (PNum (Num 1))])])
     \<and> JObj [(''m'', JArr [Prim (PNum (Num 1))])] \<noteq> ex_numeric_key"
    by (simp add: flat unflatten_def parts num idx own_set_def object_proto_names_def
        write_index_def) (simp add: ex_numeric_key_def)
  from 1 2 3 4 show ?thesis by blast
qed

text \<open>
  Claim C1, amended. For every nested record in which every array has exactly one
  element, every object below the root has at least one property, and every key is
  plain (no dot, not readable as a number, not the name of a member of
  \<open>Object.prototype\<close>), re-nesting the flattened form reproduces the record:
  \<open>Unflatten(Flatten(x)) = x\<close>.
\<close>

theorem round_trip:
  assumes "codec_record x"
  shows "unflatten (flattenObject x '''') = Inr x"
proof -
  from assms obtain kvs where x: "x = JObj kvs" and kvs: "codec_props kvs"
    by (cases x) simp_all
  let ?L = "leaves_props kvs"
  from flat_keys_plain [OF kvs] have "plain_flat ([] @ relp [] ?L)" by (simp add: relp_root)
  from flatten_leaves(1) [OF kvs this]
  have flat: "flattenObject x '''' = map (\<lambda>(p, w). (join_path p, w)) ?L"
    using x by (simp add: relp_root)
  have "\<forall>(p, w) \<in> set ?L. p \<noteq> [] \<and> (\<forall>s \<in> set p. CHR ''.'' \<notin> set s)"
    using leaves_facts(2) [OF kvs] by fastforce
  from unflatten_from_build [OF this]
  have "unflatten (flattenObject x '''') = build ?L (JObj [])"
    by (simp add: flat unflatten_def)
  also have "\<dots> = Inr (JObj ([] @ kvs))"
    by (rule build_leaves(2) [OF kvs]) simp
  finally show ?thesis using x by simp
qed

lemma nan_segments:
  "isNaN (string_to_number ''user'')" "isNaN (string_to_number ''name'')"
  "isNaN (string_to_number ''roles'')" "isNaN (string_to_number ''title'')"
  "isNaN (string_to_number ''scores'')" "isNaN (string_to_number ''note'')"
  by code_simp+

theorem round_trip_witness:
  "codec_record ex_nested \<and> unflatten (flattenObject ex_nested '''') = Inr ex_nested"
proof -
  have "codec_record ex_nested"
    by (simp add: ex_nested_def plain_key_def nan_segments object_proto_names_def)
  with round_trip [OF this] show ?thesis by simp
qed

section \<open>Results about delegated execution\<close>

text \<open>
  Claim C9 (defect in the code). The handler builds its message from \<open>e.message\<close>. When the
  program executes \<open>throw null\<close> (or \<open>throw undefined\<close>), evaluating \<open>e.message\<close> raises a
  \<open>TypeError\<close> inside the handler, and that error leaves the executor in place of the
  wrapping \<open>Failed to execute generation logic: ...\<close> error.
\<close>

theorem executeGeneratedCode_throw_null:
  "executeGeneratedCode ex_throws_null count fields' = Inl HandlerTypeError"
  by (simp add: executeGeneratedCode_def ex_throws_null_def handler_def)

text \<open>
  For every other program the contract holds. An array that the program returns is
  returned as it is, and nothing else makes the executor return; a result that is not an
  array raises the wrapping error with the message of the shape check; a thrown value
  that has a \<open>message\<close> (every \<open>Error\<close>), or is a primitive other than \<open>null\<close> and \<open>undefined\<close>,
  raises the wrapping error with that message rendered as text.
\<close>

theorem execution_contract:
  "(executeGeneratedCode code count fields' = Inr xs \<longleftrightarrow> code count fields' = Returns (JArr xs))
   \<and> (code count fields' = Returns v \<and> (\<forall>ys. v \<noteq> JArr ys) \<longrightarrow>
        executeGeneratedCode code count fields'
          = Inl (ExecutionFailure
                  ''Failed to execute generation logic: Generated code did not return an Array.''))
   \<and> (code count fields' = Throws e \<and> message_text e = Some m \<longrightarrow>
        executeGeneratedCode code count fields'
          = Inl (ExecutionFailure (''Failed to execute generation logic: '' @ m)))"
proof (intro conjI impI)
  show "executeGeneratedCode code count fields' = Inr xs \<longleftrightarrow> code count fields' = Returns (JArr xs)"
    by (auto simp: executeGeneratedCode_def handler_def
        split: outcome.splits jsval.splits option.splits)
  show "executeGeneratedCode code count fields'
          = Inl (ExecutionFailure
                  ''Failed to execute generation logic: Generated code did not return an Array.'')"
    if "code count fields' = Returns v \<and> (\<forall>ys. v \<noteq> JArr ys)"
    using that by (cases v) (simp_all add: executeGeneratedCode_def handler_def)
  show "executeGeneratedCode code count fields'
          = Inl (ExecutionFailure (''Failed to execute generation logic: '' @ m))"
    if "code count fields' = Throws e \<and> message_text e = Some m"
    using that by (simp add: executeGeneratedCode_def handler_def)
qed

theorem execution_contract_witness:
  "executeGeneratedCode ex_returns_rows 2 [] = Inr [JObj [], JObj []]
   \<and> executeGeneratedCode ex_returns_rows 3 [] = Inr [JObj [], JObj [], JObj []]
   \<and> executeGeneratedCode ex_throws_boom 2 []
       = Inl (ExecutionFailure (''Failed to execute generation logic: '' @ ''boom''))"
proof -
  have r2: "ex_returns_rows 2 [] = Returns (JArr [JObj [], JObj []])"
    and r3: "ex_returns_rows 3 [] = Returns (JArr [JObj [], JObj [], JObj []])"
    by (simp_all add: ex_returns_rows_def numeral_2_eq_2 numeral_3_eq_3)
  have b: "ex_throws_boom 2 [] = Throws (ThrownError ''boom'')"
    "message_text (ThrownError ''boom'') = Some ''boom''"
    by (simp_all add: ex_throws_boom_def)
  from execution_contract [of ex_returns_rows 2 "[]" "[JObj [], JObj []]"] r2
  have 1: "executeGeneratedCode ex_returns_rows 2 [] = Inr [JObj [], JObj []]" by blast
  from execution_contract [of ex_returns_rows 3 "[]" "[JObj [], JObj [], JObj []]"] r3
  have 2: "executeGeneratedCode ex_returns_rows 3 [] = Inr [JObj [], JObj [], JObj []]" by blast
  from execution_contract [of ex_throws_boom 2 "[]" _ _ "ThrownError ''boom''" "''boom''"] b
  have 3: "executeGeneratedCode ex_throws_boom 2 []
       = Inl (ExecutionFailure (''Failed to execute generation logic: '' @ ''boom''))" by blast
  from 1 2 3 show ?thesis by blast
qed

end
